theory Spec2Isabelle
  imports Complex_Main "HOL-Library.Multiset"
begin

section \<open>Shared schema (shared/schema.ts)\<close>

text \<open>
  \<^verbatim>\<open>InsertSong\<close> is the upload draft, \<^verbatim>\<open>Song\<close> the stored row: the draft plus the numeric
  \<^verbatim>\<open>id\<close>. The columns \<^verbatim>\<open>artist\<close> and \<^verbatim>\<open>duration\<close> are nullable (and optional in the draft), so
  they are options here: \<open>None\<close> stands for \<^verbatim>\<open>null\<close> and for \<^verbatim>\<open>undefined\<close>. The field \<^verbatim>\<open>id\<close> is
  called \<open>song_id\<close>, since \<open>id\<close> is the identity function of HOL. JavaScript numbers that
  hold ids, counters and millisecond clocks are modelled as unbounded integers (the loss of
  precision of a double above \<open>2^53\<close> is outside this model).
\<close>

record insert_song =
  title :: string
  artist :: "string option"
  duration :: "int option"
  format :: string
  path :: string
  filename :: string

record song = insert_song +
  song_id :: int

text \<open>\<^verbatim>\<open>RenameSongInput = { id: number, title: string, artist?: string }\<close>\<close>

record rename_song_input =
  input_id :: int
  input_title :: string
  input_artist :: "string option"

text \<open>
  The operator \<^verbatim>\<open>a || b\<close> yields \<^verbatim>\<open>b\<close> when \<^verbatim>\<open>a\<close> is falsy. For a string-or-missing value the
  falsy values are \<^verbatim>\<open>undefined\<close>, \<^verbatim>\<open>null\<close> and the empty string; for a number-or-missing value
  they are \<^verbatim>\<open>undefined\<close>, \<^verbatim>\<open>null\<close> and \<^verbatim>\<open>0\<close>.
\<close>

definition or_string :: "string option \<Rightarrow> string option \<Rightarrow> string option" where
  "or_string a b = (case a of None \<Rightarrow> b | Some s \<Rightarrow> if s = [] then b else Some s)"

definition or_number :: "int option \<Rightarrow> int option \<Rightarrow> int option" where
  "or_number a b = (case a of None \<Rightarrow> b | Some n \<Rightarrow> if n = 0 then b else Some n)"

section \<open>The request of the rename dialog (RenameDialog.handleSubmit)\<close>

text \<open>
  The dialog holds the title and the artist (which may be \<^verbatim>\<open>null\<close>) as typed. With a title
  that is blank it sends nothing; otherwise the body of the request is the trimmed title
  and \<^verbatim>\<open>artist?.trim() ?? ""\<close>. \<^verbatim>\<open>trim\<close> removes white space at both ends (here the six
  white-space characters of ASCII). The route passes id and body through the schema,
  which leaves a non-empty title and any artist as they are.
\<close>

definition is_space :: "char \<Rightarrow> bool" where
  "is_space c = (c \<in> {CHR '' '', CHR 0x09, CHR 0x0A, CHR 0x0B, CHR 0x0C, CHR 0x0D})"

definition trim :: "string \<Rightarrow> string" where
  "trim s = rev (dropWhile is_space (rev (dropWhile is_space s)))"

definition handleSubmit :: "int \<Rightarrow> string \<Rightarrow> string option \<Rightarrow> rename_song_input option" where
  "handleSubmit i title_field artist_field =
     (if trim title_field = [] then None
      else Some \<lparr>input_id = i, input_title = trim title_field,
                 input_artist = Some (case artist_field of None \<Rightarrow> [] | Some a \<Rightarrow> trim a)\<rparr>)"

section \<open>The JavaScript Map of the store\<close>

text \<open>
  A \<^verbatim>\<open>Map<number, Song>\<close> iterates in insertion order; \<^verbatim>\<open>set\<close> on a key that is present
  replaces the value where it stands, \<^verbatim>\<open>set\<close> on a new key appends, \<^verbatim>\<open>delete\<close> reports
  whether the key was present. The map is an association list in insertion order.
\<close>

type_synonym ('k, 'v) js_map = "('k \<times> 'v) list"

definition map_get :: "('k, 'v) js_map \<Rightarrow> 'k \<Rightarrow> 'v option" where
  "map_get m k = map_of m k"

primrec map_set :: "'k \<Rightarrow> 'v \<Rightarrow> ('k, 'v) js_map \<Rightarrow> ('k, 'v) js_map" where
  "map_set k v [] = [(k, v)]"
| "map_set k v (p # ps) = (if fst p = k then (k, v) # ps else p # map_set k v ps)"

definition map_delete :: "'k \<Rightarrow> ('k, 'v) js_map \<Rightarrow> bool \<times> ('k, 'v) js_map" where
  "map_delete k m = (map_of m k \<noteq> None, filter (\<lambda>p. fst p \<noteq> k) m)"

definition map_values :: "('k, 'v) js_map \<Rightarrow> 'v list" where
  "map_values m = map snd m"

section \<open>The disk seen by the store\<close>

text \<open>
  The store touches the disk in four ways: \<^verbatim>\<open>existsSync\<close> on an audio file or on the sidecar,
  \<^verbatim>\<open>fs.unlink\<close> of an audio file, \<^verbatim>\<open>fs.readFile\<close> with \<^verbatim>\<open>JSON.parse\<close> of the sidecar, and
  \<^verbatim>\<open>fs.writeFile\<close> of the sidecar. The disk is the set of audio files that exist and the
  content of \<^verbatim>\<open>songs-metadata.json\<close>: absent, present but unreadable as
  \<^verbatim>\<open>{songs, nextId}\<close> (reading, parsing or iterating throws), or the parsed pair. Whether a
  write or an unlink succeeds is decided by the environment and is a Boolean argument.
\<close>

datatype sidecar = Absent | Corrupt | Metadata "song list" int

record disk =
  files :: "string set"
  sidecar :: sidecar

datatype fs_error = ENOENT | EIO

definition unlink :: "bool \<Rightarrow> string \<Rightarrow> disk \<Rightarrow> fs_error + disk" where
  "unlink ok p d =
     (if p \<notin> files d then Inl ENOENT
      else if \<not> ok then Inl EIO
      else Inr (d\<lparr>files := files d - {p}\<rparr>))"

definition writeFile :: "bool \<Rightarrow> sidecar \<Rightarrow> disk \<Rightarrow> fs_error + disk" where
  "writeFile ok c d = (if ok then Inr (d\<lparr>sidecar := c\<rparr>) else Inl EIO)"

section \<open>FileStorage (server/storage.ts)\<close>

record file_storage =
  songs :: "(int, song) js_map"
  currentId :: int

text \<open>The constructor: an empty map and the counter at 1.\<close>

definition new_storage :: file_storage where
  "new_storage = \<lparr>songs = [], currentId = 1\<rparr>"

text \<open>
  \<^verbatim>\<open>loadSavedMetadata\<close>: nothing happens without a sidecar; a sidecar that cannot be read
  resets the store; otherwise the map is cleared, every saved song whose file exists is
  \<^verbatim>\<open>set\<close> under its own id, and the counter is the saved \<^verbatim>\<open>nextId\<close>.
\<close>

definition restore :: "disk \<Rightarrow> song list \<Rightarrow> (int, song) js_map" where
  "restore d ss = fold (\<lambda>s m. if path s \<in> files d then map_set (song_id s) s m else m) ss []"

definition loadSavedMetadata :: "disk \<Rightarrow> file_storage \<Rightarrow> file_storage" where
  "loadSavedMetadata d st =
     (case sidecar d of
        Absent \<Rightarrow> st
      | Corrupt \<Rightarrow> st\<lparr>songs := [], currentId := 1\<rparr>
      | Metadata ss nextId \<Rightarrow> st\<lparr>songs := restore d ss, currentId := nextId\<rparr>)"

text \<open>\<^verbatim>\<open>saveMetadata\<close>: a failed write is logged and leaves the disk as it was.\<close>

definition saveMetadata :: "bool \<Rightarrow> file_storage \<Rightarrow> disk \<Rightarrow> disk" where
  "saveMetadata write_ok st d =
     (case writeFile write_ok (Metadata (map_values (songs st)) (currentId st)) d of
        Inl e \<Rightarrow> d
      | Inr d' \<Rightarrow> d')"

definition getAllSongs :: "file_storage \<Rightarrow> song list" where
  "getAllSongs st = map_values (songs st)"

definition getSong :: "file_storage \<Rightarrow> int \<Rightarrow> song option" where
  "getSong st i = map_get (songs st) i"

text \<open>\<^verbatim>\<open>createSong\<close> returns the stored song with the new store and disk.\<close>

definition createSong ::
  "bool \<Rightarrow> insert_song \<Rightarrow> file_storage \<Rightarrow> disk \<Rightarrow> song \<times> file_storage \<times> disk" where
  "createSong write_ok insertSong st d =
     (let i = currentId st;
          st1 = st\<lparr>currentId := currentId st + 1\<rparr>;
          s = \<lparr>title = title insertSong,
               artist = or_string (artist insertSong) (Some ''Unknown''),
               duration = or_number (duration insertSong) (Some 0),
               format = format insertSong,
               path = path insertSong,
               filename = filename insertSong,
               song_id = i\<rparr>;
          st2 = st1\<lparr>songs := map_set i s (songs st1)\<rparr>
      in (s, st2, saveMetadata write_ok st2 d))"

text \<open>\<^verbatim>\<open>renameSong\<close> returns \<open>None\<close> for \<^verbatim>\<open>undefined\<close>.\<close>

definition renameSong ::
  "bool \<Rightarrow> rename_song_input \<Rightarrow> file_storage \<Rightarrow> disk \<Rightarrow> song option \<times> file_storage \<times> disk" where
  "renameSong write_ok input st d =
     (case map_get (songs st) (input_id input) of
        None \<Rightarrow> (None, st, d)
      | Some s \<Rightarrow>
          (let updatedSong = s\<lparr>title := input_title input,
                               artist := or_string (input_artist input) (artist s)\<rparr>;
               st1 = st\<lparr>songs := map_set (input_id input) updatedSong (songs st)\<rparr>
           in (Some updatedSong, st1, saveMetadata write_ok st1 d)))"

text \<open>
  \<^verbatim>\<open>deleteSong\<close>, with the \<^verbatim>\<open>id\<close> of its input as the argument: the file is unlinked only
  when it exists; an unlink that throws is caught, and then nothing is removed and nothing
  is saved.
\<close>

definition deleteSong ::
  "bool \<Rightarrow> bool \<Rightarrow> int \<Rightarrow> file_storage \<Rightarrow> disk \<Rightarrow> bool \<times> file_storage \<times> disk" where
  "deleteSong unlink_ok write_ok i st d =
     (case map_get (songs st) i of
        None \<Rightarrow> (False, st, d)
      | Some s \<Rightarrow>
          (case (if path s \<in> files d then unlink unlink_ok (path s) d else Inr d) of
             Inl e \<Rightarrow> (False, st, d)
           | Inr d1 \<Rightarrow>
               (let (result, m) = map_delete i (songs st);
                    st1 = st\<lparr>songs := m\<rparr>
                in (result, st1, saveMetadata write_ok st1 d1))))"

text \<open>
  A run of the store. An event is one call of the service, a restart of the process
  (\<^verbatim>\<open>new FileStorage()\<close> followed by \<^verbatim>\<open>loadSavedMetadata\<close> on the disk as it is), or a change
  of the audio files made by someone else (an upload writing a file, a file removed by
  hand). A step yields the ids that \<^verbatim>\<open>createSong\<close> returned in it.
\<close>

datatype store_event =
    Create bool insert_song
  | Rename bool rename_song_input
  | Delete bool bool int
  | Reload
  | FilesChanged "string set"

fun store_step :: "store_event \<Rightarrow> file_storage \<times> disk \<Rightarrow> int list \<times> file_storage \<times> disk" where
  "store_step (Create w x) (st, d) = (case createSong w x st d of (s, st', d') \<Rightarrow> ([song_id s], st', d'))"
| "store_step (Rename w x) (st, d) = (case renameSong w x st d of (r, st', d') \<Rightarrow> ([], st', d'))"
| "store_step (Delete u w i) (st, d) = (case deleteSong u w i st d of (r, st', d') \<Rightarrow> ([], st', d'))"
| "store_step Reload (st, d) = ([], loadSavedMetadata d new_storage, d)"
| "store_step (FilesChanged F) (st, d) = ([], st, d\<lparr>files := F\<rparr>)"

fun store_run :: "store_event list \<Rightarrow> file_storage \<times> disk \<Rightarrow> int list \<times> file_storage \<times> disk" where
  "store_run [] sd = ([], sd)"
| "store_run (e # es) sd =
     (case store_step e sd of (issued1, sd1) \<Rightarrow>
        (case store_run es sd1 of (issued2, sd2) \<Rightarrow> (issued1 @ issued2, sd2)))"

text \<open>The sidecar write of every \<^verbatim>\<open>createSong\<close> of a run succeeded.\<close>

fun create_saved :: "store_event \<Rightarrow> bool" where
  "create_saved (Create w x) = w"
| "create_saved e = True"

text \<open>The counter a restart would find on a disk.\<close>

definition persisted_counter :: "disk \<Rightarrow> int" where
  "persisted_counter d = (case sidecar d of Metadata ss nextId \<Rightarrow> nextId | _ \<Rightarrow> 1)"

text \<open>
  The keys of the map are distinct, as in every \<^verbatim>\<open>Map\<close>, and every song is stored under
  its own id.
\<close>

definition keyed_by_id :: "(int, song) js_map \<Rightarrow> bool" where
  "keyed_by_id m = (distinct (map fst m) \<and> list_all (\<lambda>p. song_id (snd p) = fst p) m)"

text \<open>
  Examples: a draft as the upload route passes it without artist and duration, the song
  that \<^verbatim>\<open>createSong\<close> makes of it, and a store of two songs on a disk where the file of
  the second is gone.
\<close>

definition draft :: "string \<Rightarrow> insert_song" where
  "draft t = \<lparr>title = t, artist = None, duration = None, format = ''mp3'',
              path = ''audio-uploads/'' @ t @ ''.mp3'', filename = t @ ''.mp3''\<rparr>"

definition track :: "int \<Rightarrow> string \<Rightarrow> song" where
  "track i t = \<lparr>title = t, artist = Some ''Unknown'', duration = Some 0, format = ''mp3'',
                path = ''audio-uploads/'' @ t @ ''.mp3'', filename = t @ ''.mp3'', song_id = i\<rparr>"

definition library :: file_storage where
  "library = \<lparr>songs = [(1, track 1 ''A''), (2, track 2 ''B'')], currentId = 3\<rparr>"

definition library_disk :: disk where
  "library_disk = \<lparr>files = {''audio-uploads/A.mp3''},
                    sidecar = Metadata [track 1 ''A'', track 2 ''B''] 3\<rparr>"

section \<open>The audio element (client/src/lib/audioPlayer.ts)\<close>

text \<open>
  Of the \<^verbatim>\<open>HTMLAudioElement\<close> the player reads and writes the position, the duration
  (\<open>None\<close> for \<^verbatim>\<open>NaN\<close>, before a source is loaded) and whether it is paused. Times are
  seconds. Whether \<^verbatim>\<open>play()\<close> resolves is decided by the browser and is a Boolean argument;
  a rejected promise is the error value.
\<close>

record audio =
  audio_currentTime :: real
  audio_duration :: "real option"
  audio_paused :: bool

datatype playback_error = PlaybackError

definition play :: "bool \<Rightarrow> audio \<Rightarrow> playback_error + audio" where
  "play ok a = (if ok then Inr (a\<lparr>audio_paused := False\<rparr>) else Inl PlaybackError)"

definition pause :: "audio \<Rightarrow> audio" where
  "pause a = a\<lparr>audio_paused := True\<rparr>"

definition stop :: "audio \<Rightarrow> audio" where
  "stop a = a\<lparr>audio_paused := True, audio_currentTime := 0\<rparr>"

definition seek :: "real \<Rightarrow> audio \<Rightarrow> audio" where
  "seek time a =
     (if 0 \<le> time \<and> (case audio_duration a of None \<Rightarrow> False | Some d \<Rightarrow> time \<le> d)
      then a\<lparr>audio_currentTime := time\<rparr> else a)"

text \<open>\<^verbatim>\<open>audioPlayer.play().catch(err => console.error(...))\<close>: a failure is logged only.\<close>

definition play_logged :: "bool \<Rightarrow> audio \<Rightarrow> audio" where
  "play_logged ok a = (case play ok a of Inl e \<Rightarrow> a | Inr a' \<Rightarrow> a')"

section \<open>The hook useMusicPlayer\<close>

text \<open>
  The hook keeps React state (\<^verbatim>\<open>currentSong\<close>, \<^verbatim>\<open>isPlaying\<close>, \<^verbatim>\<open>isShuffle\<close>, \<^verbatim>\<open>repeatMode\<close>,
  \<^verbatim>\<open>currentTime\<close>, and \<^verbatim>\<open>duration\<close>, here \<open>durationState\<close>) and refs (\<^verbatim>\<open>playlistRef\<close>,
  \<^verbatim>\<open>currentIndexRef\<close>, \<^verbatim>\<open>shuffledPlaylistRef\<close>, \<^verbatim>\<open>lastEndedRef\<close>), and drives the audio
  element. A handler is a function from the state in which it is called to the state
  after the render that follows it; the argument \<^verbatim>\<open>songs\<close> of the hook, which the handlers
  read through their closure, is the argument \<open>songList\<close> of the handlers that read it (the
  name \<open>songs\<close> is the map of the store). Every handler is taken to run with the values
  of the current render. The calls that the handlers make on the audio element are part
  of the model; the two effects that run after a render and load the source of a new
  current song, start it and pause the element are not.
\<close>

datatype repeat_mode = Repeat_none | Repeat_all | Repeat_one

record player =
  currentSong :: "song option"
  isPlaying :: bool
  isShuffle :: bool
  repeatMode :: repeat_mode
  currentTime :: real
  durationState :: real
  playlistRef :: "song list"
  currentIndexRef :: int
  shuffledPlaylistRef :: "song list"
  lastEndedRef :: "int option"
  audioPlayer :: audio

definition initial_player :: player where
  "initial_player =
     \<lparr>currentSong = None, isPlaying = False, isShuffle = False, repeatMode = Repeat_none,
      currentTime = 0, durationState = 0, playlistRef = [], currentIndexRef = -1,
      shuffledPlaylistRef = [],
      lastEndedRef = None,
      audioPlayer = \<lparr>audio_currentTime = 0, audio_duration = None, audio_paused = True\<rparr>\<rparr>"

text \<open>\<^verbatim>\<open>Array.prototype.findIndex\<close>: the first position that satisfies the test, or -1.\<close>

fun findIndex :: "('a \<Rightarrow> bool) \<Rightarrow> 'a list \<Rightarrow> int" where
  "findIndex P [] = -1"
| "findIndex P (x # xs) =
     (if P x then 0 else (let r = findIndex P xs in if r = -1 then -1 else r + 1))"

text \<open>Reading \<^verbatim>\<open>xs[i]\<close>: \<open>None\<close> is \<^verbatim>\<open>undefined\<close>, out of range.\<close>

definition element :: "'a list \<Rightarrow> int \<Rightarrow> 'a option" where
  "element xs i = (if 0 \<le> i \<and> i < int (length xs) then Some (xs ! nat i) else None)"

text \<open>
  The Fisher-Yates loop of \<^verbatim>\<open>updateShuffledPlaylist\<close>, for \<^verbatim>\<open>i\<close> from \<^verbatim>\<open>length - 1\<close> down to 1.
  \<^verbatim>\<open>Math.floor(Math.random() * (i + 1))\<close> is some integer from 0 to \<^verbatim>\<open>i\<close>; the draw made at
  \<^verbatim>\<open>i\<close> is \<open>rnd i\<close>, reduced modulo \<open>i + 1\<close> so that every \<open>rnd\<close> is a source of draws.
\<close>

fun fisher_yates :: "(nat \<Rightarrow> nat) \<Rightarrow> nat \<Rightarrow> 'a list \<Rightarrow> 'a list" where
  "fisher_yates rnd 0 playlist = playlist"
| "fisher_yates rnd (Suc i) playlist =
     (let j = rnd (Suc i) mod (Suc i + 1)
      in fisher_yates rnd i (playlist[Suc i := playlist ! j, j := playlist ! Suc i]))"

definition updateShuffledPlaylist :: "(nat \<Rightarrow> nat) \<Rightarrow> player \<Rightarrow> player" where
  "updateShuffledPlaylist rnd st =
     st\<lparr>shuffledPlaylistRef := fisher_yates rnd (length (playlistRef st) - 1) (playlistRef st)\<rparr>"

definition getCurrentPlaylist :: "player \<Rightarrow> song list" where
  "getCurrentPlaylist st = (if isShuffle st then shuffledPlaylistRef st else playlistRef st)"

text \<open>The effect on \<^verbatim>\<open>[songs]\<close>: the base list was replaced.\<close>

definition songsChanged :: "(nat \<Rightarrow> nat) \<Rightarrow> song list \<Rightarrow> player \<Rightarrow> player" where
  "songsChanged rnd songList st =
     (let st1 = updateShuffledPlaylist rnd (st\<lparr>playlistRef := songList\<rparr>)
      in case currentSong st of
           None \<Rightarrow> st1
         | Some c \<Rightarrow>
             (let newIndex = findIndex (\<lambda>song. song_id song = song_id c) songList
              in if newIndex \<noteq> -1 then st1\<lparr>currentIndexRef := newIndex\<rparr>
                 else if length songList > 0 then
                   st1\<lparr>currentSong := element songList 0, currentIndexRef := 0,
                       audioPlayer := stop (audioPlayer st1), isPlaying := False\<rparr>
                 else
                   st1\<lparr>currentSong := None, currentIndexRef := -1,
                       audioPlayer := stop (audioPlayer st1), isPlaying := False\<rparr>))"

definition playNext :: "song list \<Rightarrow> player \<Rightarrow> player" where
  "playNext songList st =
     (if length songList = 0 then st
      else
        (let playlist = getCurrentPlaylist st;
             nextIndex = currentIndexRef st + 1;
             nextIndex = (if nextIndex \<ge> int (length playlist) then 0 else nextIndex)
         in if nextIndex < 0 \<or> nextIndex \<ge> int (length playlist) then st
            else st\<lparr>currentIndexRef := nextIndex, currentSong := element playlist nextIndex,
                    isPlaying := True\<rparr>))"

definition playPrevious :: "song list \<Rightarrow> player \<Rightarrow> player" where
  "playPrevious songList st =
     (if length songList = 0 then st
      else if currentTime st > 3 then st\<lparr>audioPlayer := seek 0 (audioPlayer st)\<rparr>
      else
        (let playlist = getCurrentPlaylist st;
             prevIndex = currentIndexRef st - 1;
             prevIndex = (if prevIndex < 0 then int (length playlist) - 1 else prevIndex)
         in if prevIndex < 0 \<or> prevIndex \<ge> int (length playlist) then st
            else st\<lparr>currentIndexRef := prevIndex, currentSong := element playlist prevIndex,
                    isPlaying := True\<rparr>))"

text \<open>
  \<^verbatim>\<open>handleSongEnd\<close>, called at clock reading \<open>now\<close> (\<^verbatim>\<open>Date.now()\<close>, in milliseconds). The
  test \<^verbatim>\<open>lastEndedRef.current && ...\<close> is false for \<^verbatim>\<open>null\<close> and for a stored reading of 0.
\<close>

definition handleSongEnd :: "int \<Rightarrow> bool \<Rightarrow> song list \<Rightarrow> player \<Rightarrow> player" where
  "handleSongEnd now play_ok songList st =
     (if (case lastEndedRef st of None \<Rightarrow> False | Some t \<Rightarrow> t \<noteq> 0 \<and> now - t < 1000) then st
      else
        (let st1 = st\<lparr>lastEndedRef := Some now\<rparr>
         in if repeatMode st1 = Repeat_one
            then st1\<lparr>audioPlayer := play_logged play_ok (seek 0 (audioPlayer st1))\<rparr>
            else playNext songList st1))"

definition playSong :: "song \<Rightarrow> player \<Rightarrow> player" where
  "playSong song st =
     (let index = findIndex (\<lambda>s. song_id s = song_id song) (getCurrentPlaylist st)
      in if index \<noteq> -1
         then st\<lparr>currentIndexRef := index, currentSong := Some song, isPlaying := True\<rparr>
         else st)"

definition togglePlay :: "bool \<Rightarrow> song list \<Rightarrow> player \<Rightarrow> player" where
  "togglePlay play_ok songList st =
     (if currentSong st = None \<and> length songList > 0 then
        st\<lparr>currentIndexRef := 0, currentSong := element (getCurrentPlaylist st) 0,
           isPlaying := True\<rparr>
      else if currentSong st \<noteq> None then
        (if isPlaying st
         then st\<lparr>audioPlayer := pause (audioPlayer st), isPlaying := False\<rparr>
         else st\<lparr>audioPlayer := play_logged play_ok (audioPlayer st), isPlaying := True\<rparr>)
      else st)"

definition toggleShuffle :: "(nat \<Rightarrow> nat) \<Rightarrow> player \<Rightarrow> player" where
  "toggleShuffle rnd st =
     (let st0 = st\<lparr>isShuffle := \<not> isShuffle st\<rparr>
      in if \<not> isShuffle st then
           (let st1 = updateShuffledPlaylist rnd st0
            in case currentSong st of
                 None \<Rightarrow> st1
               | Some c \<Rightarrow>
                   st1\<lparr>currentIndexRef :=
                         findIndex (\<lambda>s. song_id s = song_id c) (shuffledPlaylistRef st1)\<rparr>)
         else
           (case currentSong st of
              None \<Rightarrow> st0
            | Some c \<Rightarrow>
                st0\<lparr>currentIndexRef :=
                      findIndex (\<lambda>s. song_id s = song_id c) (playlistRef st0)\<rparr>))"

definition toggleRepeat :: "player \<Rightarrow> player" where
  "toggleRepeat st =
     (if repeatMode st = Repeat_none then st\<lparr>repeatMode := Repeat_all\<rparr>
      else if repeatMode st = Repeat_all then st\<lparr>repeatMode := Repeat_one\<rparr>
      else st\<lparr>repeatMode := Repeat_none\<rparr>)"

text \<open>
  The handlers of the audio events and of the seek bar. \<^verbatim>\<open>handleTimeUpdate\<close> mirrors the
  position into \<^verbatim>\<open>currentTime\<close> and treats a position within half a second of the known
  duration as the end of the track.
\<close>

definition handleTimeUpdate :: "int \<Rightarrow> bool \<Rightarrow> song list \<Rightarrow> real \<Rightarrow> player \<Rightarrow> player" where
  "handleTimeUpdate now play_ok songList time st =
     (let st1 = st\<lparr>currentTime := time\<rparr>
      in if durationState st > 0 \<and> time \<ge> durationState st - 1 / 2
         then handleSongEnd now play_ok songList st1 else st1)"

definition handleDurationChange :: "real \<Rightarrow> player \<Rightarrow> player" where
  "handleDurationChange newDuration st = st\<lparr>durationState := newDuration\<rparr>"

definition setSeekPosition :: "real \<Rightarrow> player \<Rightarrow> player" where
  "setSeekPosition position st =
     st\<lparr>audioPlayer := seek position (audioPlayer st), currentTime := position\<rparr>"

text \<open>
  A run of the hook: the argument \<^verbatim>\<open>songs\<close> of the last render and the state. The hook is
  mounted with a first list, on which the effect on \<^verbatim>\<open>[songs]\<close> runs once.
\<close>

datatype player_event =
    SongsChanged "nat \<Rightarrow> nat" "song list"
  | PlaySong song
  | TogglePlay bool
  | PlayNext
  | PlayPrevious
  | ToggleShuffle "nat \<Rightarrow> nat"
  | ToggleRepeat
  | SongEnded int bool
  | TimeUpdate int bool real
  | DurationChange real
  | Seek real

fun player_step :: "player_event \<Rightarrow> song list \<times> player \<Rightarrow> song list \<times> player" where
  "player_step (SongsChanged rnd new) (songList, st) = (new, songsChanged rnd new st)"
| "player_step (PlaySong s) (songList, st) = (songList, playSong s st)"
| "player_step (TogglePlay ok) (songList, st) = (songList, togglePlay ok songList st)"
| "player_step PlayNext (songList, st) = (songList, playNext songList st)"
| "player_step PlayPrevious (songList, st) = (songList, playPrevious songList st)"
| "player_step (ToggleShuffle rnd) (songList, st) = (songList, toggleShuffle rnd st)"
| "player_step ToggleRepeat (songList, st) = (songList, toggleRepeat st)"
| "player_step (SongEnded now ok) (songList, st) = (songList, handleSongEnd now ok songList st)"
| "player_step (TimeUpdate now ok t) (songList, st) =
     (songList, handleTimeUpdate now ok songList t st)"
| "player_step (DurationChange t) (songList, st) = (songList, handleDurationChange t st)"
| "player_step (Seek t) (songList, st) = (songList, setSeekPosition t st)"

definition mount :: "(nat \<Rightarrow> nat) \<Rightarrow> song list \<Rightarrow> song list \<times> player" where
  "mount rnd songList = (songList, songsChanged rnd songList initial_player)"

definition player_run :: "player_event list \<Rightarrow> song list \<times> player \<Rightarrow> song list \<times> player" where
  "player_run evs s = fold player_step evs s"

text \<open>
  The index invariant of the working set: a non-negative current index is a position of
  the active sequence, and the track there is the current track (here in the weakest
  reading, the same id); with an empty base list there is no current track and the index
  is -1.
\<close>

definition index_invariant :: "song list \<times> player \<Rightarrow> bool" where
  "index_invariant s =
     (case s of (songList, st) \<Rightarrow>
        (0 \<le> currentIndexRef st \<longrightarrow>
           (case (element (getCurrentPlaylist st) (currentIndexRef st), currentSong st) of
              (Some x, Some c) \<Rightarrow> song_id x = song_id c
            | _ \<Rightarrow> False)) \<and>
        (songList = [] \<longrightarrow> currentSong st = None \<and> currentIndexRef st = -1))"

text \<open>
  What every reachable state satisfies: the ref holds the base list, the shuffled list is
  a permutation of it, and either there is no current song and the index is -1, or the
  index is a position of the lists and the base list holds a song with the id of the
  current song.
\<close>

definition working_set_ok :: "song list \<times> player \<Rightarrow> bool" where
  "working_set_ok s =
     (case s of (songList, st) \<Rightarrow>
        playlistRef st = songList \<and>
        mset (shuffledPlaylistRef st) = mset songList \<and>
        (case currentSong st of
           None \<Rightarrow> currentIndexRef st = -1
         | Some c \<Rightarrow>
             0 \<le> currentIndexRef st \<and> currentIndexRef st < int (length songList) \<and>
             (\<exists>x \<in> set songList. song_id x = song_id c)))"

text \<open>Every replacement of the base list in the run happens with shuffle off.\<close>

fun replaced_unshuffled :: "player_event list \<Rightarrow> song list \<times> player \<Rightarrow> bool" where
  "replaced_unshuffled [] s = True"
| "replaced_unshuffled (SongsChanged rnd new # es) s =
     (\<not> isShuffle (snd s) \<and> replaced_unshuffled es (player_step (SongsChanged rnd new) s))"
| "replaced_unshuffled (e # es) s = replaced_unshuffled es (player_step e s)"

text \<open>
  Examples: the library of three songs, and the hook playing the song at position \<open>i\<close> of
  it with shuffle and repeat off, the audio element 200 seconds long.
\<close>

definition abc :: "song list" where
  "abc = [track 1 ''A'', track 2 ''B'', track 3 ''C'']"

definition playing :: "int \<Rightarrow> player" where
  "playing i =
     initial_player\<lparr>playlistRef := abc, shuffledPlaylistRef := abc, currentIndexRef := i,
        currentSong := element abc i, isPlaying := True,
        audioPlayer := \<lparr>audio_currentTime = 0, audio_duration = Some 200, audio_paused = False\<rparr>\<rparr>"

section \<open>Facts about the map\<close>

lemma map_set_keys:
  "map fst (map_set k v m) = (if k \<in> set (map fst m) then map fst m else map fst m @ [k])"
  by (induction m) auto

lemma map_of_map_set: "map_of (map_set k v m) = (map_of m)(k \<mapsto> v)"
  by (induction m) auto

lemma map_set_fresh: "k \<notin> set (map fst m) \<Longrightarrow> map_set k v m = m @ [(k, v)]"
  by (induction m) auto

lemma map_of_in_keys: "map_of m k = Some v \<Longrightarrow> k \<in> set (map fst m)"
  by (induction m) (auto split: if_splits)

lemma map_set_present:
  "map_of m k = Some v0 \<Longrightarrow>
     \<exists>n < length m. m ! n = (k, v0) \<and> map_set k v m = m[n := (k, v)]"
proof (induction m)
  case Nil
  then show ?case by simp
next
  case (Cons p ps)
  show ?case
  proof (cases "fst p = k")
    case True
    with Cons.prems have "p = (k, v0)" by (cases p) auto
    with True have "(p # ps) ! 0 = (k, v0) \<and> map_set k v (p # ps) = (p # ps)[0 := (k, v)]"
      by simp
    then show ?thesis by blast
  next
    case False
    with Cons.prems have "map_of ps k = Some v0" by (cases p) (auto split: if_splits)
    from Cons.IH [OF this] obtain n where
      n: "n < length ps" "ps ! n = (k, v0)" "map_set k v ps = ps[n := (k, v)]" by blast
    with False have "Suc n < length (p # ps) \<and> (p # ps) ! Suc n = (k, v0) \<and>
        map_set k v (p # ps) = (p # ps)[Suc n := (k, v)]"
      by simp
    then show ?thesis by blast
  qed
qed

lemma map_of_filter_key: "map_of (filter (\<lambda>p. fst p \<noteq> k) m) k = None"
  by (induction m) auto

section \<open>The store keeps every song under its own id\<close>

text \<open>
  Every store that the constructor, \<^verbatim>\<open>loadSavedMetadata\<close> and the three mutating operations
  can produce has distinct keys and holds each song under the song's own id.
\<close>

lemma list_all_map_set: "list_all P m \<Longrightarrow> P (k, v) \<Longrightarrow> list_all P (map_set k v m)"
  by (induction m) auto

lemma keyed_map_set:
  "keyed_by_id m \<Longrightarrow> song_id v = k \<Longrightarrow> keyed_by_id (map_set k v m)"
  by (simp add: keyed_by_id_def map_set_keys list_all_map_set)

lemma keyed_filter: "keyed_by_id m \<Longrightarrow> keyed_by_id (filter P m)"
  by (induction m) (auto simp: keyed_by_id_def)

lemma keyed_fold_restore:
  "keyed_by_id acc \<Longrightarrow>
   keyed_by_id (fold (\<lambda>s m. if path s \<in> F then map_set (song_id s) s m else m) ss acc)"
  by (induction ss arbitrary: acc) (simp_all add: keyed_map_set)

lemma keyed_loadSavedMetadata:
  "keyed_by_id (songs st) \<Longrightarrow> keyed_by_id (songs (loadSavedMetadata d st))"
  using keyed_fold_restore [of "[]" "files d"]
  by (auto simp: loadSavedMetadata_def restore_def keyed_by_id_def split: sidecar.splits)

lemma keyed_store_step:
  assumes "keyed_by_id (songs st)" and "store_step e (st, d) = (issued, st', d')"
  shows "keyed_by_id (songs st')"
proof (cases e)
  case (Create w x)
  with assms show ?thesis
    by (auto simp: createSong_def Let_def intro!: keyed_map_set)
next
  case (Rename w x)
  show ?thesis
  proof (cases "map_get (songs st) (input_id x)")
    case None
    with Rename assms show ?thesis by (simp add: renameSong_def)
  next
    case (Some s)
    then have "(input_id x, s) \<in> set (songs st)"
      by (simp add: map_get_def map_of_SomeD)
    with assms(1) have "song_id s = input_id x"
      by (auto simp: keyed_by_id_def list_all_iff)
    with Rename Some assms show ?thesis
      by (auto simp: renameSong_def Let_def intro!: keyed_map_set)
  qed
next
  case (Delete u w i)
  with assms show ?thesis
    by (auto simp: deleteSong_def map_delete_def Let_def keyed_filter
        split: option.splits sum.splits if_splits)
next
  case Reload
  with assms keyed_loadSavedMetadata [of new_storage d] show ?thesis
    by (auto simp: new_storage_def keyed_by_id_def)
next
  case (FilesChanged F)
  with assms show ?thesis by auto
qed

lemma keyed_store_run:
  "keyed_by_id (songs st) \<Longrightarrow> store_run evs (st, d) = (issued, st', d') \<Longrightarrow>
   keyed_by_id (songs st')"
proof (induction evs arbitrary: st d issued)
  case Nil
  then show ?case by simp
next
  case (Cons e es)
  obtain i1 st1 d1 where s1: "store_step e (st, d) = (i1, st1, d1)"
    by (cases "store_step e (st, d)") auto
  with Cons.prems(2) obtain i2 where s2: "store_run es (st1, d1) = (i2, st', d')"
    by (cases "store_run es (st1, d1)") auto
  from keyed_store_step [OF Cons.prems(1) s1] have "keyed_by_id (songs st1)" .
  from Cons.IH [OF this s2] show ?case .
qed

lemma keyed_reachable:
  assumes "store_run evs (loadSavedMetadata d new_storage, d) = (issued, st', d')"
  shows "keyed_by_id (songs st')"
proof -
  have "keyed_by_id (songs new_storage)"
    by (simp add: new_storage_def keyed_by_id_def)
  then have "keyed_by_id (songs (loadSavedMetadata d new_storage))"
    by (rule keyed_loadSavedMetadata)
  from keyed_store_run [OF this assms] show ?thesis .
qed

lemma restore_fold:
  "distinct (map song_id ss) \<Longrightarrow> set (map song_id ss) \<inter> set (map fst acc) = {} \<Longrightarrow>
   fold (\<lambda>s m. if path s \<in> F then map_set (song_id s) s m else m) ss acc
     = acc @ map (\<lambda>s. (song_id s, s)) (filter (\<lambda>s. path s \<in> F) ss)"
proof (induction ss arbitrary: acc)
  case Nil
  then show ?case by simp
next
  case (Cons s ss)
  show ?case
  proof (cases "path s \<in> F")
    case True
    from Cons.prems have fresh: "song_id s \<notin> set (map fst acc)" by auto
    from Cons.prems have "distinct (map song_id ss)"
      and "set (map song_id ss) \<inter> set (map fst (acc @ [(song_id s, s)])) = {}" by auto
    from Cons.IH [OF this] True fresh show ?thesis
      by (simp add: map_set_fresh)
  next
    case False
    from Cons.prems have "distinct (map song_id ss)"
      and "set (map song_id ss) \<inter> set (map fst acc) = {}" by auto
    from Cons.IH [OF this] False show ?thesis by simp
  qed
qed

lemma keyed_values: "keyed_by_id m \<Longrightarrow> map (\<lambda>s. (song_id s, s)) (map snd m) = m"
  by (induction m) (auto simp: keyed_by_id_def)

lemma keyed_ids: "keyed_by_id m \<Longrightarrow> map song_id (map snd m) = map fst m"
  by (induction m) (auto simp: keyed_by_id_def)

lemma restore_keyed:
  assumes "keyed_by_id m"
  shows "restore (d\<lparr>files := F\<rparr>) (map_values m) = filter (\<lambda>p. path (snd p) \<in> F) m"
proof -
  have "distinct (map fst m)"
    using assms by (simp add: keyed_by_id_def)
  then have dist: "distinct (map song_id (map snd m))"
    by (simp only: keyed_ids [OF assms])
  have "restore (d\<lparr>files := F\<rparr>) (map_values m)
          = map (\<lambda>s. (song_id s, s)) (filter (\<lambda>s. path s \<in> F) (map snd m))"
    using restore_fold [OF dist, of "[]" F] by (simp add: restore_def map_values_def)
  also have "\<dots> = filter (\<lambda>p. path (snd p) \<in> F) (map (\<lambda>s. (song_id s, s)) (map snd m))"
    by (simp add: filter_map o_def)
  also have "\<dots> = filter (\<lambda>p. path (snd p) \<in> F) m"
    using assms by (simp only: keyed_values)
  finally show ?thesis .
qed

section \<open>The id counter\<close>

lemma persisted_counter_save:
  "persisted_counter (saveMetadata w st d) = (if w then currentId st else persisted_counter d)"
  by (simp add: persisted_counter_def saveMetadata_def writeFile_def)

lemma persisted_counter_files [simp]:
  "persisted_counter (d\<lparr>files := F\<rparr>) = persisted_counter d"
  by (simp add: persisted_counter_def)

lemma currentId_load_new: "currentId (loadSavedMetadata d new_storage) = persisted_counter d"
  by (simp add: loadSavedMetadata_def new_storage_def persisted_counter_def split: sidecar.splits)

lemma store_step_counter:
  assumes "create_saved e" and "persisted_counter d = currentId st"
    and "store_step e (st, d) = (issued, st', d')"
  shows "persisted_counter d' = currentId st' \<and>
         (issued = [] \<and> currentId st' = currentId st \<or>
          issued = [currentId st] \<and> currentId st' = currentId st + 1)"
proof (cases e)
  case (Create w x)
  with assms show ?thesis
    by (auto simp: createSong_def Let_def persisted_counter_save)
next
  case (Rename w x)
  with assms show ?thesis
    by (auto simp: renameSong_def Let_def persisted_counter_save split: option.splits)
next
  case (Delete u w i)
  with assms show ?thesis
    by (auto simp: deleteSong_def map_delete_def unlink_def Let_def persisted_counter_save
        split: option.splits sum.splits if_splits)
next
  case Reload
  with assms show ?thesis by (auto simp: currentId_load_new)
next
  case (FilesChanged F)
  with assms show ?thesis by auto
qed

lemma store_run_counter:
  "list_all create_saved evs \<Longrightarrow> persisted_counter d = currentId st \<Longrightarrow>
   store_run evs (st, d) = (issued, st', d') \<Longrightarrow>
   persisted_counter d' = currentId st' \<and>
   currentId st' = currentId st + int (length issued) \<and>
   sorted_wrt (<) issued \<and>
   (\<forall>i \<in> set issued. currentId st \<le> i \<and> i < currentId st')"
proof (induction evs arbitrary: st d issued)
  case Nil
  then show ?case by simp
next
  case (Cons e es)
  obtain i1 st1 d1 where s1: "store_step e (st, d) = (i1, st1, d1)"
    by (cases "store_step e (st, d)") auto
  with Cons.prems(3) obtain i2 where s2: "store_run es (st1, d1) = (i2, st', d')"
    and eq: "issued = i1 @ i2"
    by (cases "store_run es (st1, d1)") auto
  from Cons.prems(1) have e: "create_saved e" and es: "list_all create_saved es" by simp_all
  from store_step_counter [OF e Cons.prems(2) s1]
  have c1: "persisted_counter d1 = currentId st1"
    and i1: "i1 = [] \<and> currentId st1 = currentId st \<or>
             i1 = [currentId st] \<and> currentId st1 = currentId st + 1" by simp_all
  from Cons.IH [OF es c1 s2]
  have r: "persisted_counter d' = currentId st'"
    "currentId st' = currentId st1 + int (length i2)"
    "sorted_wrt (<) i2" "\<forall>i \<in> set i2. currentId st1 \<le> i \<and> i < currentId st'" by blast+
  from i1 r show ?case
    unfolding eq by (auto simp: sorted_wrt_append)
qed

section \<open>Facts about the playlist\<close>

lemma findIndex_lower: "- 1 \<le> findIndex P xs"
  by (induction xs) (auto simp: Let_def)

lemma findIndex_none: "findIndex P xs = - 1 \<longleftrightarrow> (\<forall>x \<in> set xs. \<not> P x)"
proof (induction xs)
  case Nil
  then show ?case by simp
next
  case (Cons x xs)
  from findIndex_lower [of P xs] have "findIndex P xs + 1 \<noteq> - 1" by simp
  with Cons show ?case by (auto simp: Let_def)
qed

lemma findIndex_found:
  "\<exists>x \<in> set xs. P x \<Longrightarrow>
   0 \<le> findIndex P xs \<and> findIndex P xs < int (length xs) \<and> P (xs ! nat (findIndex P xs))"
proof (induction xs)
  case Nil
  then show ?case by simp
next
  case (Cons x xs)
  show ?case
  proof (cases "P x")
    case True
    then show ?thesis by simp
  next
    case False
    with Cons.prems have ex: "\<exists>x \<in> set xs. P x" by simp
    then have "findIndex P xs \<noteq> - 1" by (simp add: findIndex_none)
    with Cons.IH [OF ex] False show ?thesis
      by (simp add: Let_def nat_add_distrib)
  qed
qed

lemma fisher_yates_mset: "i < length xs \<Longrightarrow> mset (fisher_yates rnd i xs) = mset xs"
proof (induction i arbitrary: xs)
  case 0
  then show ?case by simp
next
  case (Suc i)
  define j where "j = rnd (Suc i) mod (Suc i + 1)"
  have "j \<le> Suc i" by (simp add: j_def less_Suc_eq_le [symmetric])
  with Suc.prems have j: "j < length xs" by simp
  define ys where "ys = xs[Suc i := xs ! j, j := xs ! Suc i]"
  have "mset ys = mset xs"
    unfolding ys_def by (rule mset_swap [OF j Suc.prems])
  moreover have "i < length ys" using Suc.prems by (simp add: ys_def)
  ultimately have "mset (fisher_yates rnd i ys) = mset xs"
    using Suc.IH [of ys] by simp
  then show ?case by (simp add: Let_def j_def ys_def)
qed

lemma shuffled_mset:
  "mset (shuffledPlaylistRef (updateShuffledPlaylist rnd st)) = mset (playlistRef st)"
proof (cases "playlistRef st")
  case Nil
  then show ?thesis by (simp add: updateShuffledPlaylist_def)
next
  case (Cons x xs)
  then have "length (playlistRef st) - 1 < length (playlistRef st)" by simp
  then show ?thesis
    by (simp add: updateShuffledPlaylist_def fisher_yates_mset)
qed

lemma playNext_step:
  assumes "songList \<noteq> []" and "0 \<le> currentIndexRef st"
    and "currentIndexRef st < int (length (getCurrentPlaylist st))"
  shows "playNext songList st =
     st\<lparr>currentIndexRef := (currentIndexRef st + 1) mod int (length (getCurrentPlaylist st)),
        currentSong := Some (getCurrentPlaylist st !
           nat ((currentIndexRef st + 1) mod int (length (getCurrentPlaylist st)))),
        isPlaying := True\<rparr>"
proof (cases "currentIndexRef st + 1 = int (length (getCurrentPlaylist st))")
  case True
  from assms have "getCurrentPlaylist st \<noteq> []" by auto
  with True assms show ?thesis
    by (simp add: playNext_def Let_def element_def)
next
  case False
  with assms have "currentIndexRef st + 1 < int (length (getCurrentPlaylist st))" by simp
  with assms show ?thesis
    by (simp add: playNext_def Let_def element_def)
qed

lemma playNext_active [simp]: "getCurrentPlaylist (playNext songList st) = getCurrentPlaylist st"
  by (simp add: playNext_def getCurrentPlaylist_def Let_def)

lemma playNext_iterate:
  assumes "songList \<noteq> []" and "0 \<le> currentIndexRef st"
    and "currentIndexRef st < int (length (getCurrentPlaylist st))"
  shows "((playNext songList) ^^ Suc k) st =
     st\<lparr>currentIndexRef := (currentIndexRef st + 1 + int k) mod int (length (getCurrentPlaylist st)),
        currentSong := Some (getCurrentPlaylist st !
           nat ((currentIndexRef st + 1 + int k) mod int (length (getCurrentPlaylist st)))),
        isPlaying := True\<rparr>"
proof (induction k)
  case 0
  from assms show ?case by (simp add: playNext_step)
next
  case (Suc k)
  let ?N = "int (length (getCurrentPlaylist st))"
  let ?i = "(currentIndexRef st + 1 + int k) mod ?N"
  define s where "s = ((playNext songList) ^^ Suc k) st"
  from assms have N: "0 < ?N" by linarith
  have s_eq: "s = st\<lparr>currentIndexRef := ?i, currentSong := Some (getCurrentPlaylist st ! nat ?i),
                     isPlaying := True\<rparr>"
    unfolding s_def by (rule Suc.IH)
  then have act: "getCurrentPlaylist s = getCurrentPlaylist st"
    by (simp add: getCurrentPlaylist_def)
  from s_eq have idx: "currentIndexRef s = ?i" by simp
  from N have range: "0 \<le> currentIndexRef s" "currentIndexRef s < int (length (getCurrentPlaylist s))"
    unfolding idx act by simp_all
  have "(?i + 1) mod ?N = (currentIndexRef st + 1 + int k + 1) mod ?N"
    by (rule mod_add_left_eq)
  also have "currentIndexRef st + 1 + int k + 1 = currentIndexRef st + 1 + int (Suc k)"
    by simp
  finally have m: "(?i + 1) mod ?N = (currentIndexRef st + 1 + int (Suc k)) mod ?N" .
  have "((playNext songList) ^^ Suc (Suc k)) st = playNext songList s"
    by (simp add: s_def)
  also have "\<dots> = s\<lparr>currentIndexRef := (currentIndexRef s + 1) mod int (length (getCurrentPlaylist s)),
        currentSong := Some (getCurrentPlaylist s !
           nat ((currentIndexRef s + 1) mod int (length (getCurrentPlaylist s)))),
        isPlaying := True\<rparr>"
    by (rule playNext_step [OF assms(1) range])
  also have "\<dots> = st\<lparr>currentIndexRef := (currentIndexRef st + 1 + int (Suc k)) mod ?N,
        currentSong := Some (getCurrentPlaylist st !
           nat ((currentIndexRef st + 1 + int (Suc k)) mod ?N)),
        isPlaying := True\<rparr>"
    unfolding act idx m by (simp add: s_eq)
  finally show ?case .
qed

section \<open>Renaming\<close>

text \<open>
  C8. \<^verbatim>\<open>renameSong\<close> on an id that is absent returns \<^verbatim>\<open>undefined\<close> and leaves the store and
  the disk as they were. On an id that is present it returns the updated song, which
  differs from the stored one in the title and, when a non-empty artist is given, in the
  artist: id, duration, format, path and filename are unchanged, and the artist is
  unchanged when it is omitted. The updated song replaces the old one at the same position
  of \<^verbatim>\<open>getAllSongs\<close>; no other song, key or the counter changes, and the store is saved.
\<close>

theorem renameSong_spec:
  "(map_get (songs st) (input_id input) = None \<longrightarrow>
      renameSong w input st d = (None, st, d)) \<and>
   (map_get (songs st) (input_id input) = Some s \<longrightarrow>
      (let u = s\<lparr>title := input_title input,
                 artist := (case input_artist input of None \<Rightarrow> artist s
                            | Some a \<Rightarrow> if a = [] then artist s else Some a)\<rparr>;
           st' = st\<lparr>songs := map_set (input_id input) u (songs st)\<rparr>
       in renameSong w input st d = (Some u, st', saveMetadata w st' d) \<and>
          song_id u = song_id s \<and> duration u = duration s \<and> format u = format s \<and>
          path u = path s \<and> filename u = filename s \<and>
          (input_artist input = None \<longrightarrow> artist u = artist s) \<and>
          getSong st' (input_id input) = Some u \<and>
          (\<forall>k. k \<noteq> input_id input \<longrightarrow> getSong st' k = getSong st k) \<and>
          map fst (songs st') = map fst (songs st) \<and>
          currentId st' = currentId st \<and>
          (\<exists>n < length (getAllSongs st).
              getAllSongs st ! n = s \<and> getAllSongs st' = (getAllSongs st)[n := u])))"
proof (intro conjI impI)
  assume "map_get (songs st) (input_id input) = None"
  then show "renameSong w input st d = (None, st, d)"
    by (simp add: renameSong_def)
next
  assume present: "map_get (songs st) (input_id input) = Some s"
  define u where "u = s\<lparr>title := input_title input,
                 artist := (case input_artist input of None \<Rightarrow> artist s
                            | Some a \<Rightarrow> if a = [] then artist s else Some a)\<rparr>"
  define st' where "st' = st\<lparr>songs := map_set (input_id input) u (songs st)\<rparr>"
  have u_eq: "u = s\<lparr>title := input_title input, artist := or_string (input_artist input) (artist s)\<rparr>"
    by (simp add: u_def or_string_def split: option.splits)
  have r: "renameSong w input st d = (Some u, st', saveMetadata w st' d)"
    using present by (simp add: renameSong_def Let_def u_eq st'_def)
  have frame: "song_id u = song_id s \<and> duration u = duration s \<and> format u = format s \<and>
          path u = path s \<and> filename u = filename s \<and>
          (input_artist input = None \<longrightarrow> artist u = artist s)"
    by (simp add: u_def)
  have look: "getSong st' (input_id input) = Some u \<and>
          (\<forall>k. k \<noteq> input_id input \<longrightarrow> getSong st' k = getSong st k)"
    by (simp add: getSong_def map_get_def st'_def map_of_map_set)
  from present have mo: "map_of (songs st) (input_id input) = Some s"
    by (simp add: map_get_def)
  then have "input_id input \<in> set (map fst (songs st))"
    by (rule map_of_in_keys)
  then have keys: "map fst (songs st') = map fst (songs st) \<and> currentId st' = currentId st"
    by (simp add: st'_def map_set_keys)
  from map_set_present [OF mo, of u] obtain n where
    n: "n < length (songs st)" "songs st ! n = (input_id input, s)"
       "map_set (input_id input) u (songs st) = (songs st)[n := (input_id input, u)]" by blast
  then have "n < length (getAllSongs st) \<and> getAllSongs st ! n = s \<and>
       getAllSongs st' = (getAllSongs st)[n := u]"
    by (simp add: getAllSongs_def map_values_def st'_def map_update)
  then have pos: "\<exists>n < length (getAllSongs st).
              getAllSongs st ! n = s \<and> getAllSongs st' = (getAllSongs st)[n := u]"
    by blast
  from r frame look keys pos
  show "let u = s\<lparr>title := input_title input,
                 artist := (case input_artist input of None \<Rightarrow> artist s
                            | Some a \<Rightarrow> if a = [] then artist s else Some a)\<rparr>;
           st' = st\<lparr>songs := map_set (input_id input) u (songs st)\<rparr>
       in renameSong w input st d = (Some u, st', saveMetadata w st' d) \<and>
          song_id u = song_id s \<and> duration u = duration s \<and> format u = format s \<and>
          path u = path s \<and> filename u = filename s \<and>
          (input_artist input = None \<longrightarrow> artist u = artist s) \<and>
          getSong st' (input_id input) = Some u \<and>
          (\<forall>k. k \<noteq> input_id input \<longrightarrow> getSong st' k = getSong st k) \<and>
          map fst (songs st') = map fst (songs st) \<and>
          currentId st' = currentId st \<and>
          (\<exists>n < length (getAllSongs st).
              getAllSongs st ! n = s \<and> getAllSongs st' = (getAllSongs st)[n := u])"
    unfolding Let_def u_def [symmetric] st'_def [symmetric] by blast
qed

theorem renameSong_spec_witness:
  "renameSong True \<lparr>input_id = 7, input_title = ''Z'', input_artist = None\<rparr> library library_disk
     = (None, library, library_disk) \<and>
   fst (renameSong True \<lparr>input_id = 2, input_title = ''Z'', input_artist = None\<rparr> library library_disk)
     = Some ((track 2 ''B'')\<lparr>title := ''Z''\<rparr>) \<and>
   getAllSongs (fst (snd (renameSong True \<lparr>input_id = 2, input_title = ''Z'', input_artist = None\<rparr>
       library library_disk))) = [track 1 ''A'', (track 2 ''B'')\<lparr>title := ''Z''\<rparr>]"
proof -
  have absent: "map_get (songs library)
      (input_id \<lparr>input_id = 7, input_title = ''Z'', input_artist = None\<rparr>) = None"
    by (simp add: library_def map_get_def)
  have present: "map_get (songs library)
      (input_id \<lparr>input_id = 2, input_title = ''Z'', input_artist = None\<rparr>) = Some (track 2 ''B'')"
    by (simp add: library_def map_get_def)
  from absent
    renameSong_spec [of library "\<lparr>input_id = 7, input_title = ''Z'', input_artist = None\<rparr>"
      True library_disk "track 2 ''B''"]
  have r1: "renameSong True \<lparr>input_id = 7, input_title = ''Z'', input_artist = None\<rparr>
      library library_disk = (None, library, library_disk)"
    by blast
  from present
    renameSong_spec [of library "\<lparr>input_id = 2, input_title = ''Z'', input_artist = None\<rparr>"
      True library_disk "track 2 ''B''"]
  have r2: "renameSong True \<lparr>input_id = 2, input_title = ''Z'', input_artist = None\<rparr>
      library library_disk =
      (Some ((track 2 ''B'')\<lparr>title := ''Z''\<rparr>),
       library\<lparr>songs := map_set 2 ((track 2 ''B'')\<lparr>title := ''Z''\<rparr>) (songs library)\<rparr>,
       saveMetadata True
         (library\<lparr>songs := map_set 2 ((track 2 ''B'')\<lparr>title := ''Z''\<rparr>) (songs library)\<rparr>)
         library_disk)"
    by (simp add: Let_def track_def)
  show ?thesis
    unfolding r1 r2 by (simp add: library_def getAllSongs_def map_values_def)
qed

text \<open>
  C10. For every stored song, \<^verbatim>\<open>renameSong\<close> with the artist field equal to the empty
  string returns a record whose artist is the song's prior artist, and does on the store
  and the disk exactly what a rename with the artist omitted does.
\<close>

theorem renameSong_empty_artist:
  assumes "map_get (songs st) (input_id input) = Some s"
    and "input_artist input = Some []"
  shows "fst (renameSong w input st d) = Some (s\<lparr>title := input_title input\<rparr>) \<and>
         artist (the (fst (renameSong w input st d))) = artist s \<and>
         renameSong w input st d = renameSong w (input\<lparr>input_artist := None\<rparr>) st d"
proof -
  define u where "u = s\<lparr>title := input_title input\<rparr>"
  define st' where "st' = st\<lparr>songs := map_set (input_id input) u (songs st)\<rparr>"
  have given: "or_string (input_artist input) (artist s) = artist s"
    using assms(2) by (simp add: or_string_def)
  have omitted: "or_string None (artist s) = artist s"
    by (simp add: or_string_def)
  have same: "s\<lparr>title := input_title input, artist := artist s\<rparr> = u"
    by (simp add: u_def)
  have r: "renameSong w input st d = (Some u, st', saveMetadata w st' d)"
    using assms(1) by (simp add: renameSong_def Let_def given same st'_def)
  have r': "renameSong w (input\<lparr>input_artist := None\<rparr>) st d = (Some u, st', saveMetadata w st' d)"
    using assms(1) by (simp add: renameSong_def Let_def omitted same st'_def)
  have "artist u = artist s" by (simp add: u_def)
  with r r' show ?thesis by (simp add: u_def)
qed

theorem renameSong_empty_artist_witness:
  "fst (renameSong True \<lparr>input_id = 1, input_title = ''B'', input_artist = Some []\<rparr>
          \<lparr>songs = [(1, track 1 ''A'')], currentId = 2\<rparr> \<lparr>files = {}, sidecar = Absent\<rparr>)
     = Some ((track 1 ''A'')\<lparr>title := input_title \<lparr>input_id = 1, input_title = ''B'', input_artist = Some []\<rparr>\<rparr>) \<and>
   artist (track 1 ''A'') = Some ''Unknown''"
proof -
  have h: "map_get (songs \<lparr>songs = [(1, track 1 ''A'')], currentId = 2\<rparr>)
             (input_id \<lparr>input_id = 1, input_title = ''B'', input_artist = Some []\<rparr>)
           = Some (track 1 ''A'')"
    by (simp add: map_get_def)
  have a: "input_artist \<lparr>input_id = 1, input_title = ''B'', input_artist = Some []\<rparr> = Some []"
    by simp
  have u: "artist (track 1 ''A'') = Some ''Unknown''"
    by (simp add: track_def)
  from renameSong_empty_artist [OF h a, of True "\<lparr>files = {}, sidecar = Absent\<rparr>"] u
  show ?thesis by blast
qed

text \<open>
  The dialog with the artist field cleared, blank or \<^verbatim>\<open>null\<close> sends the empty string, and the
  rename then keeps the artist.
\<close>

lemma cleared_artist_field_keeps_artist:
  assumes "artist_field = None \<or> (\<exists>a. artist_field = Some a \<and> list_all is_space a)"
    and "handleSubmit i title_field artist_field = Some input"
    and "map_get (songs st) i = Some s"
  shows "fst (renameSong w input st d) = Some (s\<lparr>title := trim title_field\<rparr>)"
proof -
  have blank: "trim a = []" if "list_all is_space a" for a
  proof -
    from that have e: "dropWhile is_space a = []"
      by (simp add: list_all_iff)
    show ?thesis unfolding trim_def e by simp
  qed
  from assms(1) have "(case artist_field of None \<Rightarrow> [] | Some a \<Rightarrow> trim a) = []"
    by (auto simp: blank)
  with assms(2) have "input = \<lparr>input_id = i, input_title = trim title_field, input_artist = Some []\<rparr>"
    by (auto simp: handleSubmit_def split: if_splits)
  with assms(3) show ?thesis
    by (simp add: renameSong_def or_string_def Let_def)
qed

section \<open>Deleting\<close>

text \<open>
  C5. \<^verbatim>\<open>deleteSong\<close> on an id that is absent returns \<^verbatim>\<open>false\<close> and leaves the store and the
  disk as they were; so does a second delete after one that returned \<^verbatim>\<open>true\<close>. On an id
  that is present and whose file is missing, the record is removed, the store is saved
  and the result is \<^verbatim>\<open>true\<close>. When the file exists it is unlinked first; if that unlink
  throws, the error is caught, nothing is removed and the result is \<^verbatim>\<open>false\<close>. The result is
  a Boolean in every case.
\<close>

theorem deleteSong_spec:
  "(map_get (songs st) i = None \<longrightarrow> deleteSong u w i st d = (False, st, d)) \<and>
   (map_get (songs st) i = Some s \<and> path s \<notin> files d \<longrightarrow>
      (let st' = st\<lparr>songs := filter (\<lambda>p. fst p \<noteq> i) (songs st)\<rparr>
       in deleteSong u w i st d = (True, st', saveMetadata w st' d) \<and>
          getSong st' i = None \<and>
          (w \<longrightarrow> saveMetadata w st' d = d\<lparr>sidecar := Metadata (getAllSongs st') (currentId st')\<rparr>))) \<and>
   (map_get (songs st) i = Some s \<and> path s \<in> files d \<and> u \<longrightarrow>
      (let st' = st\<lparr>songs := filter (\<lambda>p. fst p \<noteq> i) (songs st)\<rparr>
       in deleteSong u w i st d = (True, st', saveMetadata w st' (d\<lparr>files := files d - {path s}\<rparr>)))) \<and>
   (map_get (songs st) i = Some s \<and> path s \<in> files d \<and> \<not> u \<longrightarrow>
      deleteSong u w i st d = (False, st, d)) \<and>
   (\<forall>st' d'. deleteSong u w i st d = (True, st', d') \<longrightarrow>
      deleteSong u2 w2 i st' d' = (False, st', d'))"
proof (intro conjI impI allI)
  assume "map_get (songs st) i = None"
  then show "deleteSong u w i st d = (False, st, d)"
    by (simp add: deleteSong_def)
next
  assume "map_get (songs st) i = Some s \<and> path s \<notin> files d"
  then show "let st' = st\<lparr>songs := filter (\<lambda>p. fst p \<noteq> i) (songs st)\<rparr>
       in deleteSong u w i st d = (True, st', saveMetadata w st' d) \<and>
          getSong st' i = None \<and>
          (w \<longrightarrow> saveMetadata w st' d = d\<lparr>sidecar := Metadata (getAllSongs st') (currentId st')\<rparr>)"
    by (simp add: deleteSong_def map_delete_def map_get_def getSong_def map_of_filter_key
        saveMetadata_def writeFile_def getAllSongs_def Let_def)
next
  assume "map_get (songs st) i = Some s \<and> path s \<in> files d \<and> u"
  then show "let st' = st\<lparr>songs := filter (\<lambda>p. fst p \<noteq> i) (songs st)\<rparr>
       in deleteSong u w i st d = (True, st', saveMetadata w st' (d\<lparr>files := files d - {path s}\<rparr>))"
    by (simp add: deleteSong_def map_delete_def map_get_def unlink_def Let_def)
next
  assume "map_get (songs st) i = Some s \<and> path s \<in> files d \<and> \<not> u"
  then show "deleteSong u w i st d = (False, st, d)"
    by (simp add: deleteSong_def unlink_def)
next
  fix st' d'
  assume del: "deleteSong u w i st d = (True, st', d')"
  then have "songs st' = filter (\<lambda>p. fst p \<noteq> i) (songs st)"
    by (auto simp: deleteSong_def map_delete_def Let_def split: option.splits sum.splits)
  then have "map_get (songs st') i = None"
    by (simp add: map_get_def map_of_filter_key)
  then show "deleteSong u2 w2 i st' d' = (False, st', d')"
    by (simp add: deleteSong_def)
qed

theorem deleteSong_spec_witness:
  "deleteSong True True 7 library library_disk = (False, library, library_disk) \<and>
   fst (deleteSong True True 2 library library_disk) = True \<and>
   getAllSongs (fst (snd (deleteSong True True 2 library library_disk))) = [track 1 ''A''] \<and>
   sidecar (snd (snd (deleteSong True True 2 library library_disk))) = Metadata [track 1 ''A''] 3 \<and>
   fst (deleteSong True True 1 library library_disk) = True \<and>
   files (snd (snd (deleteSong True True 1 library library_disk))) = {} \<and>
   deleteSong False True 1 library library_disk = (False, library, library_disk) \<and>
   fst (deleteSong True True 2 (fst (snd (deleteSong True True 2 library library_disk)))
          (snd (snd (deleteSong True True 2 library library_disk)))) = False"
proof -
  have absent: "map_get (songs library) 7 = None"
    by (simp add: library_def map_get_def)
  have gone: "map_get (songs library) 2 = Some (track 2 ''B'') \<and>
              path (track 2 ''B'') \<notin> files library_disk"
    by (simp add: library_def library_disk_def map_get_def track_def)
  have there: "map_get (songs library) 1 = Some (track 1 ''A'') \<and>
              path (track 1 ''A'') \<in> files library_disk \<and> True"
    by (simp add: library_def library_disk_def map_get_def track_def)
  have stuck: "map_get (songs library) 1 = Some (track 1 ''A'') \<and>
              path (track 1 ''A'') \<in> files library_disk \<and> \<not> False"
    by (simp add: library_def library_disk_def map_get_def track_def)
  from absent deleteSong_spec [of library 7 True True library_disk "track 1 ''A''" True True]
  have r1: "deleteSong True True 7 library library_disk = (False, library, library_disk)"
    by blast
  from gone deleteSong_spec [of library 2 True True library_disk "track 2 ''B''" True True]
  have r2: "deleteSong True True 2 library library_disk
      = (True, library\<lparr>songs := filter (\<lambda>p. fst p \<noteq> 2) (songs library)\<rparr>,
         saveMetadata True (library\<lparr>songs := filter (\<lambda>p. fst p \<noteq> 2) (songs library)\<rparr>)
           library_disk)"
    unfolding Let_def by blast
  from r2 deleteSong_spec [of library 2 True True library_disk "track 2 ''B''" True True]
  have r2b: "deleteSong True True 2 (library\<lparr>songs := filter (\<lambda>p. fst p \<noteq> 2) (songs library)\<rparr>)
         (saveMetadata True (library\<lparr>songs := filter (\<lambda>p. fst p \<noteq> 2) (songs library)\<rparr>)
           library_disk)
      = (False, library\<lparr>songs := filter (\<lambda>p. fst p \<noteq> 2) (songs library)\<rparr>,
         saveMetadata True (library\<lparr>songs := filter (\<lambda>p. fst p \<noteq> 2) (songs library)\<rparr>)
           library_disk)"
    by blast
  from there deleteSong_spec [of library 1 True True library_disk "track 1 ''A''" True True]
  have r3: "deleteSong True True 1 library library_disk
      = (True, library\<lparr>songs := filter (\<lambda>p. fst p \<noteq> 1) (songs library)\<rparr>,
         saveMetadata True (library\<lparr>songs := filter (\<lambda>p. fst p \<noteq> 1) (songs library)\<rparr>)
           (library_disk\<lparr>files := files library_disk - {path (track 1 ''A'')}\<rparr>))"
    unfolding Let_def by blast
  from stuck deleteSong_spec [of library 1 False True library_disk "track 1 ''A''" True True]
  have r4: "deleteSong False True 1 library library_disk = (False, library, library_disk)"
    by blast
  show ?thesis
    unfolding r1 r2 r3 r4 by (simp add: r2b)
       (simp add: library_def library_disk_def getAllSongs_def map_values_def
          saveMetadata_def writeFile_def track_def)
qed

section \<open>Saving and loading\<close>

text \<open>
  C3. For every store that keeps each song under its own id: after \<^verbatim>\<open>saveMetadata\<close> has
  written the sidecar, \<^verbatim>\<open>loadSavedMetadata\<close> on a disk with that sidecar and the audio files
  \<open>F\<close> yields, whatever the store it is loaded into held, exactly the records of the saved
  store whose file is in \<open>F\<close>, in the same order, and the counter of the saved store.
\<close>

theorem save_then_load:
  assumes "keyed_by_id (songs st)"
  shows "let d1 = saveMetadata True st d;
             st' = loadSavedMetadata (d1\<lparr>files := F\<rparr>) st0
         in sidecar d1 = Metadata (getAllSongs st) (currentId st) \<and>
            songs st' = filter (\<lambda>p. path (snd p) \<in> F) (songs st) \<and>
            getAllSongs st' = filter (\<lambda>s. path s \<in> F) (getAllSongs st) \<and>
            currentId st' = currentId st"
proof -
  have d1: "saveMetadata True st d = d\<lparr>sidecar := Metadata (map_values (songs st)) (currentId st)\<rparr>"
    by (simp add: saveMetadata_def writeFile_def)
  define d2 where "d2 = (saveMetadata True st d)\<lparr>files := F\<rparr>"
  have side: "sidecar d2 = Metadata (map_values (songs st)) (currentId st)"
    by (simp add: d2_def d1)
  have "restore d2 (map_values (songs st)) = filter (\<lambda>p. path (snd p) \<in> F) (songs st)"
    unfolding d2_def by (rule restore_keyed [OF assms])
  then have l: "loadSavedMetadata d2 st0
        = st0\<lparr>songs := filter (\<lambda>p. path (snd p) \<in> F) (songs st), currentId := currentId st\<rparr>"
    by (simp add: loadSavedMetadata_def side)
  have v: "getAllSongs (loadSavedMetadata d2 st0) = filter (\<lambda>s. path s \<in> F) (getAllSongs st)"
    by (simp add: l getAllSongs_def map_values_def filter_map o_def)
  have "sidecar (saveMetadata True st d) = Metadata (getAllSongs st) (currentId st)"
    by (simp add: d1 getAllSongs_def)
  with l v show ?thesis
    unfolding Let_def d2_def [symmetric] by simp
qed

theorem save_then_load_witness:
  "keyed_by_id (songs library) \<and>
   getAllSongs (loadSavedMetadata
      ((saveMetadata True library \<lparr>files = {}, sidecar = Absent\<rparr>)\<lparr>files := {''audio-uploads/A.mp3''}\<rparr>)
      new_storage) = [track 1 ''A''] \<and>
   currentId (loadSavedMetadata
      ((saveMetadata True library \<lparr>files = {}, sidecar = Absent\<rparr>)\<lparr>files := {''audio-uploads/A.mp3''}\<rparr>)
      new_storage) = 3"
proof -
  have k: "keyed_by_id (songs library)"
    by (simp add: keyed_by_id_def library_def track_def)
  from save_then_load [OF k, of "\<lparr>files = {}, sidecar = Absent\<rparr>" "{''audio-uploads/A.mp3''}" new_storage]
  have "getAllSongs (loadSavedMetadata
      ((saveMetadata True library \<lparr>files = {}, sidecar = Absent\<rparr>)\<lparr>files := {''audio-uploads/A.mp3''}\<rparr>)
      new_storage) = filter (\<lambda>s. path s \<in> {''audio-uploads/A.mp3''}) (getAllSongs library) \<and>
   currentId (loadSavedMetadata
      ((saveMetadata True library \<lparr>files = {}, sidecar = Absent\<rparr>)\<lparr>files := {''audio-uploads/A.mp3''}\<rparr>)
      new_storage) = currentId library"
    unfolding Let_def by blast
  moreover have "filter (\<lambda>s. path s \<in> {''audio-uploads/A.mp3''}) (getAllSongs library) = [track 1 ''A'']"
    by (simp add: library_def getAllSongs_def map_values_def track_def)
  moreover have "currentId library = 3" by (simp add: library_def)
  ultimately show ?thesis using k by simp
qed

section \<open>Allocating ids\<close>

text \<open>
  C2. Take a store constructed on any disk and any sequence of creates, renames, deletes,
  restarts and changes of the audio files in which the sidecar write of every create
  succeeded. The ids returned by \<^verbatim>\<open>createSong\<close> are strictly increasing along the run (so
  each is new, also after a delete), none is below the counter found at the start, the
  counter has advanced by one per create, and the sidecar holds it: a restart at the end
  finds the same counter. \<^verbatim>\<open>loadSavedMetadata\<close> takes the counter from the saved \<^verbatim>\<open>nextId\<close>,
  whatever the saved songs are.
\<close>

theorem issued_ids_increasing:
  assumes "list_all create_saved evs"
    and "store_run evs (loadSavedMetadata d new_storage, d) = (issued, st', d')"
  shows "sorted_wrt (<) issued \<and> distinct issued \<and>
         (\<forall>i \<in> set issued. persisted_counter d \<le> i \<and> i < currentId st') \<and>
         currentId st' = persisted_counter d + int (length issued) \<and>
         persisted_counter d' = currentId st' \<and>
         currentId (loadSavedMetadata (d'\<lparr>files := F\<rparr>) new_storage) = currentId st' \<and>
         currentId (loadSavedMetadata (d0\<lparr>sidecar := Metadata ss nextId\<rparr>) st0) = nextId"
proof -
  have start: "persisted_counter d = currentId (loadSavedMetadata d new_storage)"
    by (simp add: currentId_load_new)
  have r: "persisted_counter d' = currentId st' \<and>
    currentId st' = persisted_counter d + int (length issued) \<and>
    sorted_wrt (<) issued \<and>
    (\<forall>i \<in> set issued. persisted_counter d \<le> i \<and> i < currentId st')"
    by (rule store_run_counter [OF assms(1) start assms(2), unfolded currentId_load_new])
  then have "sorted_wrt (<) issued" by blast
  then have "distinct issued"
    by (simp add: strict_sorted_iff)
  moreover have "currentId (loadSavedMetadata (d'\<lparr>files := F\<rparr>) new_storage) = currentId st'"
    using r by (simp add: currentId_load_new)
  moreover have "currentId (loadSavedMetadata (d0\<lparr>sidecar := Metadata ss nextId\<rparr>) st0) = nextId"
    by (simp add: loadSavedMetadata_def)
  ultimately show ?thesis using r by blast
qed

theorem issued_ids_increasing_witness:
  "list_all create_saved
     [Create True (draft ''A''), Create True (draft ''B''), Delete True True 2, Reload,
      Create True (draft ''C'')] \<and>
   fst (store_run
     [Create True (draft ''A''), Create True (draft ''B''), Delete True True 2, Reload,
      Create True (draft ''C'')]
     (loadSavedMetadata \<lparr>files = {}, sidecar = Absent\<rparr> new_storage, \<lparr>files = {}, sidecar = Absent\<rparr>))
     = [1, 2, 3] \<and>
   sorted_wrt (<) (fst (store_run
     [Create True (draft ''A''), Create True (draft ''B''), Delete True True 2, Reload,
      Create True (draft ''C'')]
     (loadSavedMetadata \<lparr>files = {}, sidecar = Absent\<rparr> new_storage, \<lparr>files = {}, sidecar = Absent\<rparr>)))"
proof -
  let ?evs = "[Create True (draft ''A''), Create True (draft ''B''), Delete True True 2, Reload,
      Create True (draft ''C'')]"
  let ?d = "\<lparr>files = {}, sidecar = Absent\<rparr>"
  let ?r = "store_run ?evs (loadSavedMetadata ?d new_storage, ?d)"
  have h: "list_all create_saved ?evs" by simp
  have r: "?r = (fst ?r, fst (snd ?r), snd (snd ?r))" by simp
  have v: "fst ?r = [1, 2, 3]"
    by (simp add: loadSavedMetadata_def new_storage_def createSong_def deleteSong_def
        saveMetadata_def writeFile_def map_get_def map_delete_def map_values_def restore_def
        unlink_def draft_def Let_def or_string_def or_number_def)
  from issued_ids_increasing [OF h r] have "sorted_wrt (<) (fst ?r)" by blast
  with h v show ?thesis by blast
qed

text \<open>
  The condition on the writes is needed: when the write of a create fails and the process
  restarts, the counter read back is the old one and the next create returns the same id.
\<close>

lemma id_reissued_after_failed_write:
  "fst (store_run [Create False (draft ''A''), Reload, Create True (draft ''B'')]
     (loadSavedMetadata \<lparr>files = {}, sidecar = Absent\<rparr> new_storage,
      \<lparr>files = {}, sidecar = Absent\<rparr>)) = [1, 1]"
  by (simp add: loadSavedMetadata_def new_storage_def createSong_def
      saveMetadata_def writeFile_def map_values_def draft_def Let_def or_string_def or_number_def)

lemmas fixture_defs = playing_def abc_def initial_player_def element_def track_def
  getCurrentPlaylist_def

section \<open>Next and previous\<close>

text \<open>
  C4. With a base list that is not empty and a current index \<open>i\<close> inside the active sequence
  of length \<open>N\<close>, \<^verbatim>\<open>playNext\<close> sets the index to \<open>(i + 1) mod N\<close>, the current song to the
  song there and \<^verbatim>\<open>isPlaying\<close> to true, the same for every repeat mode; \<open>N\<close> calls lead back
  to index \<open>i\<close> and the song at \<open>i\<close>, which is the current song again when it was the song
  at \<open>i\<close> at the start. \<^verbatim>\<open>playNext\<close> changes nothing when the base list or the active
  sequence is empty.
\<close>

theorem playNext_spec:
  assumes "songList \<noteq> []" and "0 \<le> currentIndexRef st"
    and "currentIndexRef st < int (length (getCurrentPlaylist st))"
  shows "playNext songList st =
           st\<lparr>currentIndexRef := (currentIndexRef st + 1) mod int (length (getCurrentPlaylist st)),
              currentSong := Some (getCurrentPlaylist st !
                 nat ((currentIndexRef st + 1) mod int (length (getCurrentPlaylist st)))),
              isPlaying := True\<rparr> \<and>
         playNext songList (st\<lparr>repeatMode := m\<rparr>) = (playNext songList st)\<lparr>repeatMode := m\<rparr> \<and>
         ((playNext songList) ^^ length (getCurrentPlaylist st)) st =
           st\<lparr>currentIndexRef := currentIndexRef st,
              currentSong := Some (getCurrentPlaylist st ! nat (currentIndexRef st)),
              isPlaying := True\<rparr> \<and>
         (currentSong st = Some (getCurrentPlaylist st ! nat (currentIndexRef st)) \<longrightarrow>
            currentSong (((playNext songList) ^^ length (getCurrentPlaylist st)) st) = currentSong st) \<and>
         playNext [] st0 = st0 \<and>
         (getCurrentPlaylist st0 = [] \<longrightarrow> playNext songList st0 = st0)"
proof -
  let ?N = "length (getCurrentPlaylist st)"
  from assms have "0 < int ?N" by linarith
  then obtain k where k: "?N = Suc k" by (cases ?N) auto
  have one: "playNext songList st =
           st\<lparr>currentIndexRef := (currentIndexRef st + 1) mod int ?N,
              currentSong := Some (getCurrentPlaylist st ! nat ((currentIndexRef st + 1) mod int ?N)),
              isPlaying := True\<rparr>"
    using assms by (simp add: playNext_step)
  have rep: "playNext songList (st\<lparr>repeatMode := m\<rparr>) = (playNext songList st)\<lparr>repeatMode := m\<rparr>"
    by (simp add: playNext_def getCurrentPlaylist_def Let_def)
  have "currentIndexRef st + 1 + int k = currentIndexRef st + int ?N"
    by (simp add: k)
  then have "(currentIndexRef st + 1 + int k) mod int ?N = currentIndexRef st mod int ?N"
    by (simp only: mod_add_self2)
  also have "\<dots> = currentIndexRef st"
    using assms by simp
  finally have "(currentIndexRef st + 1 + int k) mod int ?N = currentIndexRef st" .
  with playNext_iterate [OF assms, of k]
  have cyc: "((playNext songList) ^^ ?N) st =
           st\<lparr>currentIndexRef := currentIndexRef st,
              currentSong := Some (getCurrentPlaylist st ! nat (currentIndexRef st)),
              isPlaying := True\<rparr>"
    unfolding k [symmetric] by simp
  then have again: "currentSong st = Some (getCurrentPlaylist st ! nat (currentIndexRef st)) \<longrightarrow>
            currentSong (((playNext songList) ^^ ?N) st) = currentSong st"
    by simp
  have e1: "playNext [] st0 = st0" by (simp add: playNext_def)
  have e2: "getCurrentPlaylist st0 = [] \<longrightarrow> playNext songList st0 = st0"
    by (simp add: playNext_def Let_def)
  from one rep cyc again e1 e2 show ?thesis by blast
qed

theorem playNext_spec_witness:
  "currentIndexRef (playNext abc (playing 2)) = 0 \<and>
   currentSong (playNext abc (playing 2)) = Some (track 1 ''A'') \<and>
   currentIndexRef (playNext abc (playing 0)) = 1 \<and>
   currentSong (playNext abc (playing 0)) = Some (track 2 ''B'') \<and>
   currentSong (((playNext abc) ^^ length (getCurrentPlaylist (playing 0))) (playing 0))
     = currentSong (playing 0) \<and>
   length (getCurrentPlaylist (playing 0)) = 3"
proof -
  have h: "abc \<noteq> []" by (simp add: abc_def)
  have l2: "0 \<le> currentIndexRef (playing 2)"
    and u2: "currentIndexRef (playing 2) < int (length (getCurrentPlaylist (playing 2)))"
    by (simp_all add: fixture_defs)
  have l0: "0 \<le> currentIndexRef (playing 0)"
    and u0: "currentIndexRef (playing 0) < int (length (getCurrentPlaylist (playing 0)))"
    by (simp_all add: fixture_defs)
  have c0: "currentSong (playing 0)
      = Some (getCurrentPlaylist (playing 0) ! nat (currentIndexRef (playing 0)))"
    by (simp add: fixture_defs)
  from playNext_spec [OF h l2 u2]
  have a: "playNext abc (playing 2) =
      (playing 2)\<lparr>currentIndexRef := (currentIndexRef (playing 2) + 1)
                       mod int (length (getCurrentPlaylist (playing 2))),
        currentSong := Some (getCurrentPlaylist (playing 2) !
           nat ((currentIndexRef (playing 2) + 1) mod int (length (getCurrentPlaylist (playing 2))))),
        isPlaying := True\<rparr>"
    by blast
  from playNext_spec [OF h l0 u0] c0
  have b: "playNext abc (playing 0) =
      (playing 0)\<lparr>currentIndexRef := (currentIndexRef (playing 0) + 1)
                       mod int (length (getCurrentPlaylist (playing 0))),
        currentSong := Some (getCurrentPlaylist (playing 0) !
           nat ((currentIndexRef (playing 0) + 1) mod int (length (getCurrentPlaylist (playing 0))))),
        isPlaying := True\<rparr>"
    and c: "currentSong (((playNext abc) ^^ length (getCurrentPlaylist (playing 0))) (playing 0))
     = currentSong (playing 0)"
    by blast+
  have "currentIndexRef (playNext abc (playing 2)) = 0 \<and>
   currentSong (playNext abc (playing 2)) = Some (track 1 ''A'')"
    unfolding a by (simp add: fixture_defs)
  moreover have "currentIndexRef (playNext abc (playing 0)) = 1 \<and>
   currentSong (playNext abc (playing 0)) = Some (track 2 ''B'')"
    unfolding b by (simp add: fixture_defs)
  moreover have "length (getCurrentPlaylist (playing 0)) = 3"
    by (simp add: fixture_defs)
  ultimately show ?thesis using c by blast
qed

text \<open>
  C6. With a base list that is not empty and a current index inside the active sequence:
  when \<^verbatim>\<open>currentTime\<close> is above 3, \<^verbatim>\<open>playPrevious\<close> only calls \<^verbatim>\<open>seek(0)\<close> on the audio element
  (whose position becomes 0 when its duration is known), and index and song stay;
  otherwise the index becomes \<open>(i - 1) mod N\<close>, from 0 the last position, with the song
  there as the current song.
\<close>

theorem playPrevious_spec:
  assumes "songList \<noteq> []" and "0 \<le> currentIndexRef st"
    and "currentIndexRef st < int (length (getCurrentPlaylist st))"
  shows "(currentTime st > 3 \<longrightarrow>
            playPrevious songList st = st\<lparr>audioPlayer := seek 0 (audioPlayer st)\<rparr> \<and>
            currentIndexRef (playPrevious songList st) = currentIndexRef st \<and>
            currentSong (playPrevious songList st) = currentSong st \<and>
            (\<forall>d. audio_duration (audioPlayer st) = Some d \<and> 0 \<le> d \<longrightarrow>
               audio_currentTime (audioPlayer (playPrevious songList st)) = 0)) \<and>
         (\<not> currentTime st > 3 \<longrightarrow>
            playPrevious songList st =
              st\<lparr>currentIndexRef := (currentIndexRef st - 1) mod int (length (getCurrentPlaylist st)),
                 currentSong := Some (getCurrentPlaylist st !
                    nat ((currentIndexRef st - 1) mod int (length (getCurrentPlaylist st)))),
                 isPlaying := True\<rparr> \<and>
            (currentIndexRef st = 0 \<longrightarrow>
               currentIndexRef (playPrevious songList st) = int (length (getCurrentPlaylist st)) - 1))"
proof (intro conjI impI)
  assume t: "currentTime st > 3"
  with assms(1) show r: "playPrevious songList st = st\<lparr>audioPlayer := seek 0 (audioPlayer st)\<rparr>"
    by (simp add: playPrevious_def)
  show "currentIndexRef (playPrevious songList st) = currentIndexRef st"
    and "currentSong (playPrevious songList st) = currentSong st"
    by (simp_all add: r)
  show "\<forall>d. audio_duration (audioPlayer st) = Some d \<and> 0 \<le> d \<longrightarrow>
               audio_currentTime (audioPlayer (playPrevious songList st)) = 0"
    by (simp add: r seek_def)
next
  assume t: "\<not> currentTime st > 3"
  show r: "playPrevious songList st =
              st\<lparr>currentIndexRef := (currentIndexRef st - 1) mod int (length (getCurrentPlaylist st)),
                 currentSong := Some (getCurrentPlaylist st !
                    nat ((currentIndexRef st - 1) mod int (length (getCurrentPlaylist st)))),
                 isPlaying := True\<rparr>"
  proof (cases "currentIndexRef st = 0")
    case True
    from assms have "0 < int (length (getCurrentPlaylist st))" by linarith
    with True assms t show ?thesis
      by (simp add: playPrevious_def Let_def element_def zmod_minus1)
  next
    case False
    with assms have "0 \<le> currentIndexRef st - 1"
      "currentIndexRef st - 1 < int (length (getCurrentPlaylist st))" by simp_all
    with assms t show ?thesis
      by (simp add: playPrevious_def Let_def element_def)
  qed
  assume z: "currentIndexRef st = 0"
  from assms have "0 < int (length (getCurrentPlaylist st))" by linarith
  with z show "currentIndexRef (playPrevious songList st) = int (length (getCurrentPlaylist st)) - 1"
    by (simp add: r zmod_minus1)
qed

theorem playPrevious_spec_witness:
  "playPrevious abc ((playing 1)\<lparr>currentTime := 5\<rparr>)
     = (playing 1)\<lparr>currentTime := 5,
          audioPlayer := \<lparr>audio_currentTime = 0, audio_duration = Some 200, audio_paused = False\<rparr>\<rparr> \<and>
   currentIndexRef (playPrevious abc ((playing 1)\<lparr>currentTime := 1\<rparr>)) = 0 \<and>
   currentSong (playPrevious abc ((playing 1)\<lparr>currentTime := 1\<rparr>)) = Some (track 1 ''A'') \<and>
   currentIndexRef (playPrevious abc ((playing 0)\<lparr>currentTime := 1\<rparr>)) = 2 \<and>
   currentSong (playPrevious abc ((playing 0)\<lparr>currentTime := 1\<rparr>)) = Some (track 3 ''C'')"
proof -
  let ?late = "(playing 1)\<lparr>currentTime := 5\<rparr>"
  let ?early = "(playing 1)\<lparr>currentTime := 1\<rparr>"
  let ?first = "(playing 0)\<lparr>currentTime := 1\<rparr>"
  have h: "abc \<noteq> []" by (simp add: abc_def)
  have r1: "0 \<le> currentIndexRef ?late"
    "currentIndexRef ?late < int (length (getCurrentPlaylist ?late))"
    and r2: "0 \<le> currentIndexRef ?early"
    "currentIndexRef ?early < int (length (getCurrentPlaylist ?early))"
    and r3: "0 \<le> currentIndexRef ?first"
    "currentIndexRef ?first < int (length (getCurrentPlaylist ?first))"
    by (simp_all add: fixture_defs)
  have t1: "currentTime ?late > 3" and t2: "\<not> currentTime ?early > 3"
    and t3: "\<not> currentTime ?first > 3"
    by simp_all
  from playPrevious_spec [OF h r1] t1
  have a: "playPrevious abc ?late = ?late\<lparr>audioPlayer := seek 0 (audioPlayer ?late)\<rparr>"
    by blast
  from playPrevious_spec [OF h r2] t2
  have b: "playPrevious abc ?early =
      ?early\<lparr>currentIndexRef := (currentIndexRef ?early - 1) mod int (length (getCurrentPlaylist ?early)),
         currentSong := Some (getCurrentPlaylist ?early !
            nat ((currentIndexRef ?early - 1) mod int (length (getCurrentPlaylist ?early)))),
         isPlaying := True\<rparr>"
    by blast
  from playPrevious_spec [OF h r3] t3
  have c: "playPrevious abc ?first =
      ?first\<lparr>currentIndexRef := (currentIndexRef ?first - 1) mod int (length (getCurrentPlaylist ?first)),
         currentSong := Some (getCurrentPlaylist ?first !
            nat ((currentIndexRef ?first - 1) mod int (length (getCurrentPlaylist ?first)))),
         isPlaying := True\<rparr>"
    by blast
  show ?thesis
    unfolding a b c by (simp add: fixture_defs seek_def)
qed

text \<open>
  Without a current song (index -1, where the buttons are disabled) \<^verbatim>\<open>playPrevious\<close> selects
  the last song of the active sequence.
\<close>

lemma playPrevious_without_track:
  assumes "songList \<noteq> []" and "getCurrentPlaylist st \<noteq> []"
    and "currentIndexRef st = - 1" and "\<not> currentTime st > 3"
  shows "playPrevious songList st =
     st\<lparr>currentIndexRef := int (length (getCurrentPlaylist st)) - 1,
        currentSong := Some (last (getCurrentPlaylist st)), isPlaying := True\<rparr>"
  using assms by (simp add: playPrevious_def Let_def element_def last_conv_nth nat_diff_distrib')

section \<open>The end of a track\<close>

text \<open>
  C7. A signal that arrives less than 1000 ms after the clock reading stored by the last
  handled one changes nothing. A signal that is handled stores its clock reading; with
  repeat mode \<^verbatim>\<open>one\<close> it calls \<^verbatim>\<open>seek(0)\<close> and \<^verbatim>\<open>play()\<close> on the audio element and leaves index
  and song alone, and with the other two modes it calls \<^verbatim>\<open>playNext\<close>. A second signal less
  than 1000 ms after a handled one is therefore ignored. (A stored reading of 0 counts as
  none, as \<^verbatim>\<open>null\<close> does.)
\<close>

theorem handleSongEnd_spec:
  "(lastEndedRef st = Some t \<and> t \<noteq> 0 \<and> now - t < 1000 \<longrightarrow>
      handleSongEnd now ok songList st = st) \<and>
   (lastEndedRef st = None \<or> lastEndedRef st = Some 0 \<or>
      (\<exists>t. lastEndedRef st = Some t \<and> 1000 \<le> now - t) \<longrightarrow>
      (repeatMode st = Repeat_one \<longrightarrow>
         handleSongEnd now ok songList st =
           st\<lparr>lastEndedRef := Some now,
              audioPlayer := play_logged ok (seek 0 (audioPlayer st))\<rparr> \<and>
         currentIndexRef (handleSongEnd now ok songList st) = currentIndexRef st \<and>
         currentSong (handleSongEnd now ok songList st) = currentSong st \<and>
         (\<forall>d. audio_duration (audioPlayer st) = Some d \<and> 0 \<le> d \<and> ok \<longrightarrow>
            audio_currentTime (audioPlayer (handleSongEnd now ok songList st)) = 0 \<and>
            \<not> audio_paused (audioPlayer (handleSongEnd now ok songList st)))) \<and>
      (repeatMode st \<noteq> Repeat_one \<longrightarrow>
         handleSongEnd now ok songList st = playNext songList (st\<lparr>lastEndedRef := Some now\<rparr>)) \<and>
      lastEndedRef (handleSongEnd now ok songList st) = Some now \<and>
      (now \<noteq> 0 \<and> now' - now < 1000 \<longrightarrow>
         handleSongEnd now' ok' songList (handleSongEnd now ok songList st)
           = handleSongEnd now ok songList st))"
proof (intro conjI impI)
  assume "lastEndedRef st = Some t \<and> t \<noteq> 0 \<and> now - t < 1000"
  then show "handleSongEnd now ok songList st = st"
    by (simp add: handleSongEnd_def)
next
  assume "lastEndedRef st = None \<or> lastEndedRef st = Some 0 \<or>
      (\<exists>t. lastEndedRef st = Some t \<and> 1000 \<le> now - t)"
  then have go: "\<not> (case lastEndedRef st of None \<Rightarrow> False | Some t \<Rightarrow> t \<noteq> 0 \<and> now - t < 1000)"
    by (auto split: option.splits)
  then have h: "handleSongEnd now ok songList st =
      (if repeatMode st = Repeat_one
       then st\<lparr>lastEndedRef := Some now, audioPlayer := play_logged ok (seek 0 (audioPlayer st))\<rparr>
       else playNext songList (st\<lparr>lastEndedRef := Some now\<rparr>))"
    by (simp add: handleSongEnd_def Let_def)
  have pn: "lastEndedRef (playNext songList (st\<lparr>lastEndedRef := Some now\<rparr>)) = Some now"
    by (simp add: playNext_def Let_def)
  show last: "lastEndedRef (handleSongEnd now ok songList st) = Some now"
    by (simp add: h pn)
  {
    assume "now \<noteq> 0 \<and> now' - now < 1000"
    with last show "handleSongEnd now' ok' songList (handleSongEnd now ok songList st)
           = handleSongEnd now ok songList st"
      by (simp add: handleSongEnd_def [of now'])
  }
  {
    assume "repeatMode st \<noteq> Repeat_one"
    then show "handleSongEnd now ok songList st = playNext songList (st\<lparr>lastEndedRef := Some now\<rparr>)"
      by (simp add: h)
  }
  assume one: "repeatMode st = Repeat_one"
  then show r: "handleSongEnd now ok songList st =
           st\<lparr>lastEndedRef := Some now,
              audioPlayer := play_logged ok (seek 0 (audioPlayer st))\<rparr>"
    by (simp add: h)
  show "currentIndexRef (handleSongEnd now ok songList st) = currentIndexRef st"
    and "currentSong (handleSongEnd now ok songList st) = currentSong st"
    by (simp_all add: r)
  show "\<forall>d. audio_duration (audioPlayer st) = Some d \<and> 0 \<le> d \<and> ok \<longrightarrow>
            audio_currentTime (audioPlayer (handleSongEnd now ok songList st)) = 0 \<and>
            \<not> audio_paused (audioPlayer (handleSongEnd now ok songList st))"
    unfolding r by (simp add: play_logged_def play_def seek_def)
qed

theorem handleSongEnd_spec_witness:
  "handleSongEnd 5400 True abc ((playing 0)\<lparr>lastEndedRef := Some 5000\<rparr>)
     = (playing 0)\<lparr>lastEndedRef := Some 5000\<rparr> \<and>
   handleSongEnd 6000 True abc ((playing 0)\<lparr>lastEndedRef := Some 5000, repeatMode := Repeat_one\<rparr>)
     = (playing 0)\<lparr>lastEndedRef := Some 6000, repeatMode := Repeat_one\<rparr> \<and>
   currentSong (handleSongEnd 6000 True abc ((playing 0)\<lparr>lastEndedRef := Some 5000\<rparr>))
     = Some (track 2 ''B'') \<and>
   handleSongEnd 6999 True abc (handleSongEnd 6000 True abc ((playing 0)\<lparr>lastEndedRef := Some 5000\<rparr>))
     = handleSongEnd 6000 True abc ((playing 0)\<lparr>lastEndedRef := Some 5000\<rparr>)"
proof -
  let ?st = "(playing 0)\<lparr>lastEndedRef := Some 5000\<rparr>"
  let ?one = "(playing 0)\<lparr>lastEndedRef := Some 5000, repeatMode := Repeat_one\<rparr>"
  have near: "lastEndedRef ?st = Some 5000 \<and> (5000::int) \<noteq> 0 \<and> (5400::int) - 5000 < 1000"
    by simp
  have far: "lastEndedRef ?st = None \<or> lastEndedRef ?st = Some 0 \<or>
      (\<exists>t. lastEndedRef ?st = Some t \<and> 1000 \<le> 6000 - t)"
    by simp
  have far1: "lastEndedRef ?one = None \<or> lastEndedRef ?one = Some 0 \<or>
      (\<exists>t. lastEndedRef ?one = Some t \<and> 1000 \<le> 6000 - t)"
    by simp
  have m1: "repeatMode ?one = Repeat_one" by simp
  have m0: "repeatMode ?st \<noteq> Repeat_one" by (simp add: fixture_defs)
  have again: "(6000::int) \<noteq> 0 \<and> (6999::int) - 6000 < 1000" by simp
  from near handleSongEnd_spec [of ?st 5000 5400 True abc 6999 True]
  have a: "handleSongEnd 5400 True abc ?st = ?st" by blast
  from far1 m1 handleSongEnd_spec [of ?one 5000 6000 True abc 6999 True]
  have b: "handleSongEnd 6000 True abc ?one
      = ?one\<lparr>lastEndedRef := Some 6000, audioPlayer := play_logged True (seek 0 (audioPlayer ?one))\<rparr>"
    by blast
  from far m0 again handleSongEnd_spec [of ?st 5000 6000 True abc 6999 True]
  have c: "handleSongEnd 6000 True abc ?st = playNext abc (?st\<lparr>lastEndedRef := Some 6000\<rparr>)"
    and d: "handleSongEnd 6999 True abc (handleSongEnd 6000 True abc ?st)
      = handleSongEnd 6000 True abc ?st"
    by blast+
  have "handleSongEnd 6000 True abc ?one
      = (playing 0)\<lparr>lastEndedRef := Some 6000, repeatMode := Repeat_one\<rparr>"
    unfolding b by (simp add: fixture_defs seek_def play_logged_def play_def)
  moreover have "currentSong (handleSongEnd 6000 True abc ?st) = Some (track 2 ''B'')"
    unfolding c by (simp add: fixture_defs playNext_def Let_def)
  ultimately show ?thesis using a d by blast
qed

section \<open>Shuffle\<close>

text \<open>
  C9. \<^verbatim>\<open>toggleShuffle\<close> never changes the current song. Starting with shuffle off and a
  current song, the first call turns shuffle on, reshuffles the base list and sets the
  index to the first position of the shuffled list that holds the id of the current song;
  the second call turns shuffle off and sets the index to that position in the base list.
  When the base list holds the id, both are positions of a song with that id.
\<close>

theorem toggleShuffle_spec:
  "currentSong (toggleShuffle rnd st) = currentSong st \<and>
   isShuffle (toggleShuffle rnd st) = (\<not> isShuffle st) \<and>
   playlistRef (toggleShuffle rnd st) = playlistRef st \<and>
   (currentSong st = Some c \<and> \<not> isShuffle st \<longrightarrow>
      (let st1 = toggleShuffle rnd st; st2 = toggleShuffle rnd' st1
       in currentSong st1 = Some c \<and> currentSong st2 = Some c \<and>
          isShuffle st1 \<and> \<not> isShuffle st2 \<and>
          shuffledPlaylistRef st1
            = fisher_yates rnd (length (playlistRef st) - 1) (playlistRef st) \<and>
          mset (shuffledPlaylistRef st1) = mset (playlistRef st) \<and>
          currentIndexRef st1
            = findIndex (\<lambda>s. song_id s = song_id c) (shuffledPlaylistRef st1) \<and>
          currentIndexRef st2 = findIndex (\<lambda>s. song_id s = song_id c) (playlistRef st) \<and>
          ((\<exists>s \<in> set (playlistRef st). song_id s = song_id c) \<longrightarrow>
             0 \<le> currentIndexRef st1 \<and>
             currentIndexRef st1 < int (length (shuffledPlaylistRef st1)) \<and>
             song_id (shuffledPlaylistRef st1 ! nat (currentIndexRef st1)) = song_id c \<and>
             0 \<le> currentIndexRef st2 \<and>
             currentIndexRef st2 < int (length (playlistRef st)) \<and>
             song_id (playlistRef st ! nat (currentIndexRef st2)) = song_id c)))"
proof (intro conjI impI)
  show "currentSong (toggleShuffle rnd st) = currentSong st"
    and "isShuffle (toggleShuffle rnd st) = (\<not> isShuffle st)"
    and "playlistRef (toggleShuffle rnd st) = playlistRef st"
    by (simp_all add: toggleShuffle_def updateShuffledPlaylist_def Let_def split: option.splits)
next
  assume a: "currentSong st = Some c \<and> \<not> isShuffle st"
  define st1 where "st1 = toggleShuffle rnd st"
  define st2 where "st2 = toggleShuffle rnd' st1"
  let ?P = "\<lambda>s. song_id s = song_id c"
  have sh: "shuffledPlaylistRef st1 = fisher_yates rnd (length (playlistRef st) - 1) (playlistRef st)"
    using a by (simp add: st1_def toggleShuffle_def updateShuffledPlaylist_def Let_def)
  have ms: "mset (shuffledPlaylistRef st1) = mset (playlistRef st)"
    using shuffled_mset [of rnd st] by (simp add: sh updateShuffledPlaylist_def)
  have f1: "currentSong st1 = Some c" "isShuffle st1" "playlistRef st1 = playlistRef st"
    "currentIndexRef st1 = findIndex ?P (shuffledPlaylistRef st1)"
    using a by (simp_all add: st1_def toggleShuffle_def updateShuffledPlaylist_def Let_def)
  have f2: "currentSong st2 = Some c" "\<not> isShuffle st2"
    "currentIndexRef st2 = findIndex ?P (playlistRef st)"
    using f1 by (simp_all add: st2_def toggleShuffle_def [of rnd'] Let_def)
  have pos: "(\<exists>s \<in> set (playlistRef st). ?P s) \<longrightarrow>
             0 \<le> currentIndexRef st1 \<and>
             currentIndexRef st1 < int (length (shuffledPlaylistRef st1)) \<and>
             song_id (shuffledPlaylistRef st1 ! nat (currentIndexRef st1)) = song_id c \<and>
             0 \<le> currentIndexRef st2 \<and>
             currentIndexRef st2 < int (length (playlistRef st)) \<and>
             song_id (playlistRef st ! nat (currentIndexRef st2)) = song_id c"
  proof
    assume ex: "\<exists>s \<in> set (playlistRef st). ?P s"
    from ms have "set (shuffledPlaylistRef st1) = set (playlistRef st)"
      by (rule mset_eq_setD)
    with ex have ex1: "\<exists>s \<in> set (shuffledPlaylistRef st1). ?P s" by simp
    from findIndex_found [of "shuffledPlaylistRef st1" ?P, OF ex1]
      findIndex_found [of "playlistRef st" ?P, OF ex]
    show "0 \<le> currentIndexRef st1 \<and>
             currentIndexRef st1 < int (length (shuffledPlaylistRef st1)) \<and>
             song_id (shuffledPlaylistRef st1 ! nat (currentIndexRef st1)) = song_id c \<and>
             0 \<le> currentIndexRef st2 \<and>
             currentIndexRef st2 < int (length (playlistRef st)) \<and>
             song_id (playlistRef st ! nat (currentIndexRef st2)) = song_id c"
      unfolding f1(4) f2(3) by blast
  qed
  from sh ms f1 f2 pos
  show "let st1 = toggleShuffle rnd st; st2 = toggleShuffle rnd' st1
       in currentSong st1 = Some c \<and> currentSong st2 = Some c \<and>
          isShuffle st1 \<and> \<not> isShuffle st2 \<and>
          shuffledPlaylistRef st1
            = fisher_yates rnd (length (playlistRef st) - 1) (playlistRef st) \<and>
          mset (shuffledPlaylistRef st1) = mset (playlistRef st) \<and>
          currentIndexRef st1
            = findIndex (\<lambda>s. song_id s = song_id c) (shuffledPlaylistRef st1) \<and>
          currentIndexRef st2 = findIndex (\<lambda>s. song_id s = song_id c) (playlistRef st) \<and>
          ((\<exists>s \<in> set (playlistRef st). song_id s = song_id c) \<longrightarrow>
             0 \<le> currentIndexRef st1 \<and>
             currentIndexRef st1 < int (length (shuffledPlaylistRef st1)) \<and>
             song_id (shuffledPlaylistRef st1 ! nat (currentIndexRef st1)) = song_id c \<and>
             0 \<le> currentIndexRef st2 \<and>
             currentIndexRef st2 < int (length (playlistRef st)) \<and>
             song_id (playlistRef st ! nat (currentIndexRef st2)) = song_id c)"
    unfolding Let_def st1_def [symmetric] st2_def [symmetric] by blast
qed

theorem toggleShuffle_spec_witness:
  "currentSong (toggleShuffle (\<lambda>i. 0) (playing 0)) = Some (track 1 ''A'') \<and>
   currentSong (toggleShuffle (\<lambda>i. 0) (toggleShuffle (\<lambda>i. 0) (playing 0))) = Some (track 1 ''A'') \<and>
   shuffledPlaylistRef (toggleShuffle (\<lambda>i. 0) (playing 0))
     = [track 2 ''B'', track 3 ''C'', track 1 ''A''] \<and>
   currentIndexRef (playing 0) = 0 \<and>
   currentIndexRef (toggleShuffle (\<lambda>i. 0) (playing 0)) = 2 \<and>
   currentIndexRef (toggleShuffle (\<lambda>i. 0) (toggleShuffle (\<lambda>i. 0) (playing 0))) = 0"
proof -
  let ?rnd = "\<lambda>i::nat. 0::nat"
  have h: "currentSong (playing 0) = Some (track 1 ''A'') \<and> \<not> isShuffle (playing 0)"
    by (simp add: fixture_defs)
  from h toggleShuffle_spec [of ?rnd "playing 0" "track 1 ''A''" ?rnd]
  have r: "currentSong (toggleShuffle ?rnd (playing 0)) = Some (track 1 ''A'')"
    "currentSong (toggleShuffle ?rnd (toggleShuffle ?rnd (playing 0))) = Some (track 1 ''A'')"
    "shuffledPlaylistRef (toggleShuffle ?rnd (playing 0))
       = fisher_yates ?rnd (length (playlistRef (playing 0)) - 1) (playlistRef (playing 0))"
    "currentIndexRef (toggleShuffle ?rnd (playing 0))
       = findIndex (\<lambda>s. song_id s = song_id (track 1 ''A''))
           (shuffledPlaylistRef (toggleShuffle ?rnd (playing 0)))"
    "currentIndexRef (toggleShuffle ?rnd (toggleShuffle ?rnd (playing 0)))
       = findIndex (\<lambda>s. song_id s = song_id (track 1 ''A'')) (playlistRef (playing 0))"
    unfolding Let_def by blast+
  have sh: "fisher_yates ?rnd (length (playlistRef (playing 0)) - 1) (playlistRef (playing 0))
      = [track 2 ''B'', track 3 ''C'', track 1 ''A'']"
    by (simp add: playing_def abc_def numeral_2_eq_2)
  have i0: "currentIndexRef (playing 0) = 0" by (simp add: playing_def)
  have i1: "findIndex (\<lambda>s. song_id s = song_id (track 1 ''A''))
      [track 2 ''B'', track 3 ''C'', track 1 ''A''] = 2"
    by (simp add: track_def Let_def)
  have i2: "findIndex (\<lambda>s. song_id s = song_id (track 1 ''A'')) (playlistRef (playing 0)) = 0"
    by (simp add: playing_def abc_def track_def)
  from r sh i0 i1 i2 show ?thesis by simp
qed

section \<open>What every reachable state of the hook satisfies\<close>

text \<open>
  In every state the hook reaches from its mount, the ref holds the base list, the
  shuffled list is a permutation of it, and the index is -1 without a current song and a
  position of the lists with one. So an empty base list goes with no current song and
  index -1. The index invariant itself is kept by every handler and by a replacement of
  the base list with shuffle off.
\<close>

lemma element_in_range:
  "0 \<le> i \<Longrightarrow> i < int (length xs) \<Longrightarrow> element xs i = Some (xs ! nat i)"
  by (simp add: element_def)

lemma findIndex_position:
  assumes "findIndex P xs \<noteq> - 1"
  shows "0 \<le> findIndex P xs \<and> findIndex P xs < int (length xs) \<and> P (xs ! nat (findIndex P xs)) \<and>
         xs ! nat (findIndex P xs) \<in> set xs"
proof -
  from assms have "\<exists>x \<in> set xs. P x" by (simp add: findIndex_none)
  from findIndex_found [OF this] show ?thesis by (auto simp: nat_less_iff)
qed

lemma updateShuffledPlaylist_fields [simp]:
  "playlistRef (updateShuffledPlaylist rnd st) = playlistRef st"
  "currentSong (updateShuffledPlaylist rnd st) = currentSong st"
  "currentIndexRef (updateShuffledPlaylist rnd st) = currentIndexRef st"
  "isShuffle (updateShuffledPlaylist rnd st) = isShuffle st"
  by (simp_all add: updateShuffledPlaylist_def)

lemma ok_intro:
  assumes "playlistRef st = songList" and "mset (shuffledPlaylistRef st) = mset songList"
    and "currentSong st = None \<Longrightarrow> currentIndexRef st = - 1"
    and "\<And>c. currentSong st = Some c \<Longrightarrow>
           0 \<le> currentIndexRef st \<and> currentIndexRef st < int (length songList) \<and>
           (\<exists>x \<in> set songList. song_id x = song_id c)"
  shows "working_set_ok (songList, st)"
  using assms by (simp add: working_set_ok_def split: option.splits)

lemma ok_lists:
  assumes "working_set_ok (songList, st)"
  shows "playlistRef st = songList" and "mset (shuffledPlaylistRef st) = mset songList"
    and "length (getCurrentPlaylist st) = length songList"
    and "set (getCurrentPlaylist st) = set songList"
proof -
  from assms show p: "playlistRef st = songList" and m: "mset (shuffledPlaylistRef st) = mset songList"
    by (simp_all add: working_set_ok_def)
  from m have "length (shuffledPlaylistRef st) = length songList"
    and "set (shuffledPlaylistRef st) = set songList"
    by (rule mset_eq_length, rule mset_eq_setD)
  with p show "length (getCurrentPlaylist st) = length songList"
    and "set (getCurrentPlaylist st) = set songList"
    by (simp_all add: getCurrentPlaylist_def)
qed

lemma ok_current:
  assumes "working_set_ok (songList, st)"
  shows "currentSong st = None \<Longrightarrow> currentIndexRef st = - 1"
    and "currentSong st = Some c \<Longrightarrow>
           0 \<le> currentIndexRef st \<and> currentIndexRef st < int (length songList) \<and>
           (\<exists>x \<in> set songList. song_id x = song_id c)"
  using assms by (simp_all add: working_set_ok_def)

lemma ok_songsChanged: 
  assumes "working_set_ok (songList, st)"
  shows "working_set_ok (new, songsChanged rnd new st)"
proof (rule ok_intro)
  let ?st1 = "updateShuffledPlaylist rnd (st\<lparr>playlistRef := new\<rparr>)"
  have s1: "playlistRef ?st1 = new" "currentSong ?st1 = currentSong st"
    "currentIndexRef ?st1 = currentIndexRef st"
    by simp_all
  have m1: "mset (shuffledPlaylistRef ?st1) = mset new"
    using shuffled_mset [of rnd "st\<lparr>playlistRef := new\<rparr>"] by simp
  show "playlistRef (songsChanged rnd new st) = new"
    using s1 by (simp add: songsChanged_def Let_def split: option.splits)
  have "shuffledPlaylistRef (songsChanged rnd new st) = shuffledPlaylistRef ?st1"
    by (simp add: songsChanged_def Let_def split: option.splits)
  with m1 show "mset (shuffledPlaylistRef (songsChanged rnd new st)) = mset new"
    by (simp only:)
  show "currentIndexRef (songsChanged rnd new st) = - 1"
    if "currentSong (songsChanged rnd new st) = None"
  proof (cases "currentSong st")
    case None
    with ok_current(1) [OF assms] s1 show ?thesis
      by (simp add: songsChanged_def Let_def)
  next
    case (Some c)
    with that s1 show ?thesis
      by (auto simp: songsChanged_def Let_def element_def split: if_splits)
  qed
  show "0 \<le> currentIndexRef (songsChanged rnd new st) \<and>
        currentIndexRef (songsChanged rnd new st) < int (length new) \<and>
        (\<exists>x \<in> set new. song_id x = song_id c')"
    if c': "currentSong (songsChanged rnd new st) = Some c'" for c'
  proof (cases "currentSong st")
    case None
    with c' s1 show ?thesis by (simp add: songsChanged_def Let_def)
  next
    case (Some c)
    let ?P = "\<lambda>song. song_id song = song_id c"
    show ?thesis
    proof (cases "findIndex ?P new = - 1")
      case False
      from findIndex_position [OF False] Some c' s1 False show ?thesis
        by (auto simp: songsChanged_def Let_def)
    next
      case True
      with Some c' s1 have "new \<noteq> []" and "c' = new ! 0"
        by (auto simp: songsChanged_def Let_def element_def split: if_splits)
      then have "c' \<in> set new" by simp
      with True Some s1 \<open>new \<noteq> []\<close> show ?thesis
        by (auto simp: songsChanged_def Let_def)
    qed
  qed
qed

lemma ok_playSong:
  assumes "working_set_ok (songList, st)"
  shows "working_set_ok (songList, playSong s st)"
proof (cases "findIndex (\<lambda>x. song_id x = song_id s) (getCurrentPlaylist st) = - 1")
  case True
  with assms show ?thesis by (simp add: playSong_def)
next
  case False
  from findIndex_position [OF False] ok_lists [OF assms] False show ?thesis
    by (intro ok_intro) (auto simp: playSong_def Let_def)
qed

lemma ok_audio [simp]:
  "working_set_ok (songList, st\<lparr>audioPlayer := a\<rparr>) = working_set_ok (songList, st)"
  "working_set_ok (songList, st\<lparr>isPlaying := b\<rparr>) = working_set_ok (songList, st)"
  "working_set_ok (songList, st\<lparr>lastEndedRef := l\<rparr>) = working_set_ok (songList, st)"
  "working_set_ok (songList, st\<lparr>currentTime := t\<rparr>) = working_set_ok (songList, st)"
  "working_set_ok (songList, st\<lparr>durationState := t\<rparr>) = working_set_ok (songList, st)"
  "working_set_ok (songList, st\<lparr>repeatMode := m\<rparr>) = working_set_ok (songList, st)"
  by (simp_all add: working_set_ok_def split: option.splits)

lemma ok_move:
  assumes "working_set_ok (songList, st)" and "0 \<le> i" and "i < int (length (getCurrentPlaylist st))"
  shows "working_set_ok (songList,
           st\<lparr>currentIndexRef := i, currentSong := element (getCurrentPlaylist st) i, isPlaying := True\<rparr>)"
proof -
  from assms(2,3) have e: "element (getCurrentPlaylist st) i = Some (getCurrentPlaylist st ! nat i)"
    by (rule element_in_range)
  from assms(2,3) have "getCurrentPlaylist st ! nat i \<in> set (getCurrentPlaylist st)"
    by simp
  with ok_lists [OF assms(1)] assms(2,3) show ?thesis
    unfolding e by (intro ok_intro) auto
qed

lemma ok_playNext:
  assumes "working_set_ok (songList, st)"
  shows "working_set_ok (songList, playNext songList st)"
  using assms ok_move [OF assms]
  by (auto simp: playNext_def Let_def)

lemma ok_playPrevious:
  assumes "working_set_ok (songList, st)"
  shows "working_set_ok (songList, playPrevious songList st)"
  using assms ok_move [OF assms]
  by (auto simp: playPrevious_def Let_def)

lemma ok_togglePlay:
  assumes "working_set_ok (songList, st)"
  shows "working_set_ok (songList, togglePlay ok songList st)"
proof (cases "currentSong st = None \<and> length songList > 0")
  case True
  with ok_lists(3) [OF assms] have "0 < int (length (getCurrentPlaylist st))" by simp
  from ok_move [OF assms _ this, of] True show ?thesis
    by (simp add: togglePlay_def)
next
  case False
  with assms show ?thesis by (auto simp: togglePlay_def)
qed

lemma ok_toggleShuffle:
  assumes "working_set_ok (songList, st)"
  shows "working_set_ok (songList, toggleShuffle rnd st)"
proof (cases "currentSong st")
  case None
  with assms shuffled_mset [of rnd "st\<lparr>isShuffle := \<not> isShuffle st\<rparr>"] show ?thesis
    by (auto simp: toggleShuffle_def Let_def working_set_ok_def updateShuffledPlaylist_def)
next
  case (Some c)
  let ?P = "\<lambda>s. song_id s = song_id c"
  let ?sh = "shuffledPlaylistRef (updateShuffledPlaylist rnd (st\<lparr>isShuffle := \<not> isShuffle st\<rparr>))"
  from ok_current(2) [OF assms Some] have ex: "\<exists>x \<in> set songList. ?P x" by simp
  from ok_lists(1,2) [OF assms] have p: "playlistRef st = songList"
    and m: "mset (shuffledPlaylistRef st) = mset songList" .
  have m': "mset ?sh = mset songList"
    using shuffled_mset [of rnd "st\<lparr>isShuffle := \<not> isShuffle st\<rparr>"] p by simp
  then have "set ?sh = set songList" and l: "length ?sh = length songList"
    by (rule mset_eq_setD, rule mset_eq_length)
  with ex have ex': "\<exists>x \<in> set ?sh. ?P x" by simp
  show ?thesis
  proof (cases "isShuffle st")
    case True
    from findIndex_found [OF ex] Some True p m ex show ?thesis
      by (intro ok_intro) (auto simp: toggleShuffle_def Let_def)
  next
    case False
    from findIndex_found [OF ex'] Some False p m' l ex show ?thesis
      by (intro ok_intro) (auto simp: toggleShuffle_def Let_def updateShuffledPlaylist_def)
  qed
qed

lemma ok_handleSongEnd:
  assumes "working_set_ok (songList, st)"
  shows "working_set_ok (songList, handleSongEnd now ok songList st)"
  using assms ok_playNext [of songList "st\<lparr>lastEndedRef := Some now\<rparr>"]
  by (simp add: handleSongEnd_def Let_def)

lemma ok_step:
  assumes "working_set_ok s"
  shows "working_set_ok (player_step e s)"
proof (cases s)
  case (Pair songList st)
  with assms have ok: "working_set_ok (songList, st)" by simp
  show ?thesis
  proof (cases e)
    case (SongsChanged rnd new)
    with Pair ok_songsChanged [OF ok] show ?thesis by simp
  next
    case (TimeUpdate now b t)
    with Pair ok ok_handleSongEnd [of songList "st\<lparr>currentTime := t\<rparr>"] show ?thesis
      by (simp add: handleTimeUpdate_def Let_def)
  qed (use Pair ok in \<open>simp_all add: ok_playSong ok_togglePlay ok_playNext ok_playPrevious
        ok_toggleShuffle ok_handleSongEnd toggleRepeat_def handleDurationChange_def
        setSeekPosition_def\<close>)
qed

lemma ok_mount: "working_set_ok (mount rnd songList)"
proof -
  have "working_set_ok ([], initial_player)"
    by (simp add: working_set_ok_def initial_player_def)
  then show ?thesis
    unfolding mount_def by (rule ok_songsChanged)
qed

lemma ok_run: "working_set_ok s \<Longrightarrow> working_set_ok (player_run evs s)"
  unfolding player_run_def
  by (induction evs arbitrary: s) (simp_all add: ok_step)

lemma empty_list_no_track:
  assumes "player_run evs (mount rnd songList) = ([], st)"
  shows "currentSong st = None \<and> currentIndexRef st = - 1"
proof -
  from ok_run [OF ok_mount, of evs rnd songList] assms have "working_set_ok ([], st)" by simp
  then show ?thesis
    by (auto simp: working_set_ok_def split: option.splits)
qed

text \<open>
  With a current song (the only states in which the buttons for next and previous are
  enabled) the base list is not empty and the index is a position of the active
  sequence.
\<close>

lemma current_track_in_range:
  assumes "working_set_ok (songList, st)" and "currentSong st = Some c"
  shows "songList \<noteq> [] \<and> 0 \<le> currentIndexRef st \<and>
         currentIndexRef st < int (length (getCurrentPlaylist st))"
  using ok_current(2) [OF assms] ok_lists(3) [OF assms(1)] by auto

lemma reachable_current_track_in_range:
  assumes "player_run evs (mount rnd songList0) = (songList, st)" and "currentSong st = Some c"
  shows "songList \<noteq> [] \<and> 0 \<le> currentIndexRef st \<and>
         currentIndexRef st < int (length (getCurrentPlaylist st))"
proof -
  from ok_run [OF ok_mount, of evs rnd songList0] assms(1) have "working_set_ok (songList, st)"
    by simp
  from current_track_in_range [OF this assms(2)] show ?thesis .
qed

lemma getCurrentPlaylist_fields [simp]:
  "getCurrentPlaylist (st\<lparr>audioPlayer := a\<rparr>) = getCurrentPlaylist st"
  "getCurrentPlaylist (st\<lparr>isPlaying := b\<rparr>) = getCurrentPlaylist st"
  "getCurrentPlaylist (st\<lparr>lastEndedRef := l\<rparr>) = getCurrentPlaylist st"
  "getCurrentPlaylist (st\<lparr>currentTime := t\<rparr>) = getCurrentPlaylist st"
  "getCurrentPlaylist (st\<lparr>durationState := t\<rparr>) = getCurrentPlaylist st"
  "getCurrentPlaylist (st\<lparr>repeatMode := m\<rparr>) = getCurrentPlaylist st"
  "getCurrentPlaylist (st\<lparr>currentIndexRef := i\<rparr>) = getCurrentPlaylist st"
  "getCurrentPlaylist (st\<lparr>currentSong := c\<rparr>) = getCurrentPlaylist st"
  by (simp_all add: getCurrentPlaylist_def)

lemma invariant_iff:
  assumes "working_set_ok (songList, st)"
  shows "index_invariant (songList, st) \<longleftrightarrow>
         (\<forall>c. currentSong st = Some c \<longrightarrow>
              song_id (getCurrentPlaylist st ! nat (currentIndexRef st)) = song_id c)"
proof (cases "currentSong st")
  case None
  with ok_current(1) [OF assms] show ?thesis
    by (simp add: index_invariant_def)
next
  case (Some c)
  from ok_current(2) [OF assms Some] ok_lists(3) [OF assms]
  have r: "0 \<le> currentIndexRef st" "currentIndexRef st < int (length (getCurrentPlaylist st))"
    and ne: "songList \<noteq> []"
    by auto
  from element_in_range [OF r] Some r(1) ne show ?thesis
    by (simp add: index_invariant_def)
qed

lemma playNext_cases:
  "playNext songList st = st \<or>
   (\<exists>i. 0 \<le> i \<and> i < int (length (getCurrentPlaylist st)) \<and>
        playNext songList st =
          st\<lparr>currentIndexRef := i, currentSong := Some (getCurrentPlaylist st ! nat i),
             isPlaying := True\<rparr>)"
proof -
  define i where "i = (if currentIndexRef st + 1 \<ge> int (length (getCurrentPlaylist st))
                       then 0 else currentIndexRef st + 1)"
  show ?thesis
  proof (cases "length songList = 0 \<or> i < 0 \<or> i \<ge> int (length (getCurrentPlaylist st))")
    case True
    then have "playNext songList st = st"
      by (auto simp: playNext_def Let_def i_def)
    then show ?thesis ..
  next
    case False
    then have "0 \<le> i \<and> i < int (length (getCurrentPlaylist st)) \<and>
        playNext songList st =
          st\<lparr>currentIndexRef := i, currentSong := Some (getCurrentPlaylist st ! nat i),
             isPlaying := True\<rparr>"
      by (simp add: playNext_def Let_def i_def [symmetric] element_def)
    then show ?thesis by blast
  qed
qed

lemma playPrevious_cases:
  "playPrevious songList st = st \<or>
   playPrevious songList st = st\<lparr>audioPlayer := seek 0 (audioPlayer st)\<rparr> \<or>
   (\<exists>i. 0 \<le> i \<and> i < int (length (getCurrentPlaylist st)) \<and>
        playPrevious songList st =
          st\<lparr>currentIndexRef := i, currentSong := Some (getCurrentPlaylist st ! nat i),
             isPlaying := True\<rparr>)"
proof -
  define i where "i = (if currentIndexRef st - 1 < 0
                       then int (length (getCurrentPlaylist st)) - 1 else currentIndexRef st - 1)"
  show ?thesis
  proof (cases "length songList = 0")
    case True
    then have "playPrevious songList st = st" by (simp add: playPrevious_def)
    then show ?thesis ..
  next
    case ne: False
    show ?thesis
    proof (cases "currentTime st > 3")
      case True
      with ne have "playPrevious songList st = st\<lparr>audioPlayer := seek 0 (audioPlayer st)\<rparr>"
        by (simp add: playPrevious_def)
      then show ?thesis by blast
    next
      case early: False
      show ?thesis
      proof (cases "i < 0 \<or> i \<ge> int (length (getCurrentPlaylist st))")
        case True
        with ne early have "playPrevious songList st = st"
          by (auto simp: playPrevious_def Let_def i_def)
        then show ?thesis ..
      next
        case False
        with ne early have "0 \<le> i \<and> i < int (length (getCurrentPlaylist st)) \<and>
            playPrevious songList st =
              st\<lparr>currentIndexRef := i, currentSong := Some (getCurrentPlaylist st ! nat i),
                 isPlaying := True\<rparr>"
          by (auto simp: playPrevious_def Let_def i_def element_def split: if_splits)
        then show ?thesis by blast
      qed
    qed
  qed
qed

lemma match_playNext:
  assumes "\<And>c. currentSong st = Some c \<Longrightarrow>
              song_id (getCurrentPlaylist st ! nat (currentIndexRef st)) = song_id c"
    and "currentSong (playNext songList st) = Some c'"
  shows "song_id (getCurrentPlaylist (playNext songList st) !
           nat (currentIndexRef (playNext songList st))) = song_id c'"
  using playNext_cases [of songList st] assms by (elim disjE exE conjE) simp_all

lemma match_playPrevious:
  assumes "\<And>c. currentSong st = Some c \<Longrightarrow>
              song_id (getCurrentPlaylist st ! nat (currentIndexRef st)) = song_id c"
    and "currentSong (playPrevious songList st) = Some c'"
  shows "song_id (getCurrentPlaylist (playPrevious songList st) !
           nat (currentIndexRef (playPrevious songList st))) = song_id c'"
  using playPrevious_cases [of songList st] assms by (elim disjE exE conjE) simp_all

lemma match_handleSongEnd:
  assumes "\<And>c. currentSong st = Some c \<Longrightarrow>
              song_id (getCurrentPlaylist st ! nat (currentIndexRef st)) = song_id c"
    and "currentSong (handleSongEnd now b songList st) = Some c'"
  shows "song_id (getCurrentPlaylist (handleSongEnd now b songList st) !
           nat (currentIndexRef (handleSongEnd now b songList st))) = song_id c'"
proof (cases "handleSongEnd now b songList st = playNext songList (st\<lparr>lastEndedRef := Some now\<rparr>)")
  case True
  from assms(2) show ?thesis
    unfolding True by (rule match_playNext [rotated]) (use assms(1) in simp)
next
  case False
  then have "handleSongEnd now b songList st = st \<or>
     handleSongEnd now b songList st =
       st\<lparr>lastEndedRef := Some now,
          audioPlayer := play_logged b (seek 0 (audioPlayer st))\<rparr>"
    by (auto simp: handleSongEnd_def Let_def split: if_splits)
  with assms show ?thesis by (elim disjE) simp_all
qed

lemma invariant_step:
  assumes ok: "working_set_ok s" and inv: "index_invariant s"
    and unshuffled: "\<And>rnd new. e = SongsChanged rnd new \<Longrightarrow> \<not> isShuffle (snd s)"
  shows "index_invariant (player_step e s)"
proof (cases s)
  case (Pair songList st)
  obtain songList' st' where s': "player_step e s = (songList', st')"
    by (cases "player_step e s") auto
  from ok_step [OF ok, of e] s' have ok': "working_set_ok (songList', st')" by simp
  from ok Pair have ok0: "working_set_ok (songList, st)" by simp
  from inv Pair invariant_iff [OF ok0]
  have m: "\<And>c. currentSong st = Some c \<Longrightarrow>
              song_id (getCurrentPlaylist st ! nat (currentIndexRef st)) = song_id c"
    by simp
  have "song_id (getCurrentPlaylist st' ! nat (currentIndexRef st')) = song_id c'"
    if c': "currentSong st' = Some c'" for c'
  proof (cases e)
    case (SongsChanged rnd new)
    with unshuffled Pair have ns: "\<not> isShuffle st" by simp
    from SongsChanged Pair s' have st': "st' = songsChanged rnd new st" by auto
    show ?thesis
    proof (cases "currentSong st")
      case None
      with c' show ?thesis by (simp add: st' songsChanged_def Let_def)
    next
      case (Some c)
      let ?P = "\<lambda>song. song_id song = song_id c"
      show ?thesis
      proof (cases "findIndex ?P new = - 1")
        case False
        from findIndex_position [OF False] Some c' ns False show ?thesis
          by (auto simp: st' songsChanged_def Let_def getCurrentPlaylist_def
              updateShuffledPlaylist_def)
      next
        case True
        with Some c' ns show ?thesis
          by (auto simp: st' songsChanged_def Let_def getCurrentPlaylist_def
              updateShuffledPlaylist_def element_def split: if_splits)
      qed
    qed
  next
    case (PlaySong x)
    with Pair s' have st': "st' = playSong x st" by auto
    show ?thesis
    proof (cases "findIndex (\<lambda>y. song_id y = song_id x) (getCurrentPlaylist st) = - 1")
      case True
      with c' m show ?thesis by (simp add: st' playSong_def)
    next
      case False
      from findIndex_position [OF False] c' False show ?thesis
        by (auto simp: st' playSong_def Let_def)
    qed
  next
    case (TogglePlay b)
    with Pair s' have st': "st' = togglePlay b songList st" by auto
    show ?thesis
    proof (cases "currentSong st = None \<and> length songList > 0")
      case True
      with ok_lists(3) [OF ok0] have "0 < int (length (getCurrentPlaylist st))" by simp
      with c' True show ?thesis
        by (simp add: st' togglePlay_def element_def)
    next
      case False
      with c' m show ?thesis
        by (auto simp: st' togglePlay_def split: if_splits)
    qed
  next
    case PlayNext
    with Pair s' have st': "st' = playNext songList st" by auto
    with c' m match_playNext [of st songList c'] show ?thesis by simp
  next
    case PlayPrevious
    with Pair s' have st': "st' = playPrevious songList st" by auto
    with c' m match_playPrevious [of st songList c'] show ?thesis by simp
  next
    case (ToggleShuffle rnd)
    with Pair s' have st': "st' = toggleShuffle rnd st" by auto
    from c' have c: "currentSong st = Some c'"
      by (simp add: st' toggleShuffle_def Let_def updateShuffledPlaylist_def split: option.splits if_splits)
    let ?P = "\<lambda>s. song_id s = song_id c'"
    from ok' c' have "\<exists>x \<in> set (getCurrentPlaylist st'). ?P x"
      using ok_current(2) [OF ok' c'] ok_lists(4) [OF ok'] by simp
    from findIndex_found [OF this] c show ?thesis
      by (auto simp: st' toggleShuffle_def Let_def getCurrentPlaylist_def)
  next
    case ToggleRepeat
    with Pair s' c' m show ?thesis by (auto simp: toggleRepeat_def split: if_splits)
  next
    case (SongEnded now b)
    with Pair s' have st': "st' = handleSongEnd now b songList st" by auto
    with c' m match_handleSongEnd [of st now b songList c'] show ?thesis by simp
  next
    case (TimeUpdate now b t)
    with Pair s' have st': "st' = handleTimeUpdate now b songList t st" by auto
    with c' m match_handleSongEnd [of "st\<lparr>currentTime := t\<rparr>" now b songList c']
    show ?thesis
      by (auto simp: handleTimeUpdate_def Let_def split: if_splits)
  next
    case (DurationChange t)
    with Pair s' c' m show ?thesis by (auto simp: handleDurationChange_def)
  next
    case (Seek t)
    with Pair s' c' m show ?thesis by (auto simp: setSeekPosition_def)
  qed
  with invariant_iff [OF ok'] s' show ?thesis by simp
qed

lemma invariant_mount: "index_invariant (mount rnd songList)"
  by (simp add: index_invariant_def mount_def songsChanged_def initial_player_def Let_def)

lemma invariant_run:
  "working_set_ok s \<Longrightarrow> index_invariant s \<Longrightarrow> replaced_unshuffled evs s \<Longrightarrow>
   index_invariant (player_run evs s)"
proof (induction evs arbitrary: s)
  case Nil
  then show ?case by (simp add: player_run_def)
next
  case (Cons e es)
  have u: "\<not> isShuffle (snd s)" if "e = SongsChanged rnd new" for rnd new
    using Cons.prems(3) that by simp
  have r: "replaced_unshuffled es (player_step e s)"
    using Cons.prems(3) by (cases e) simp_all
  from invariant_step [OF Cons.prems(1,2) u] have "index_invariant (player_step e s)" .
  from Cons.IH [OF ok_step [OF Cons.prems(1)] this r] show ?case
    by (simp add: player_run_def)
qed

lemma index_invariant_while_replaced_unshuffled:
  "replaced_unshuffled evs (mount rnd songList) \<Longrightarrow>
   index_invariant (player_run evs (mount rnd songList))"
  by (rule invariant_run [OF ok_mount invariant_mount])

section \<open>The index invariant\<close>

text \<open>
  C1. The index invariant says that in every state the hook can reach, a current index
  that is not negative is a position of the active sequence holding the current track,
  and that an empty base list goes with no current track and index -1. The second part
  holds
  (\<open>empty_list_no_track\<close>), and the first holds as long as the base list is replaced with
  shuffle off only (\<open>index_invariant_while_replaced_unshuffled\<close>). The effect on
  \<^verbatim>\<open>[songs]\<close> looks the current song up in the new base list and stores that position, also
  when shuffle is on and the active sequence is the freshly shuffled list. Here the
  library is A, B; B is played, shuffle is turned on, and an upload makes the library
  A, B, C: the index is then 1, the position of B in the base list, while position 1 of
  the shuffled list B, C, A holds C.
\<close>

theorem index_misplaced_by_replacement_under_shuffle:
  "(case player_run [PlaySong (track 2 ''B''), ToggleShuffle (\<lambda>i. 0),
          SongsChanged (\<lambda>i. 0) [track 1 ''A'', track 2 ''B'', track 3 ''C'']]
       (mount (\<lambda>i. 0) [track 1 ''A'', track 2 ''B'']) of
      (songList, st) \<Rightarrow>
        songList = [track 1 ''A'', track 2 ''B'', track 3 ''C''] \<and>
        isShuffle st \<and> currentIndexRef st = 1 \<and> currentSong st = Some (track 2 ''B'') \<and>
        getCurrentPlaylist st = [track 2 ''B'', track 3 ''C'', track 1 ''A''] \<and>
        element (getCurrentPlaylist st) (currentIndexRef st) = Some (track 3 ''C'') \<and>
        song_id (track 3 ''C'') \<noteq> song_id (track 2 ''B''))"
  by (simp add: player_run_def mount_def songsChanged_def playSong_def
      toggleShuffle_def updateShuffledPlaylist_def getCurrentPlaylist_def element_def
      initial_player_def track_def Let_def numeral_2_eq_2)

text \<open>In terms of the invariant: it holds before the replacement and not after it.\<close>

lemma index_invariant_lost:
  "index_invariant (player_run [PlaySong (track 2 ''B''), ToggleShuffle (\<lambda>i. 0)]
       (mount (\<lambda>i. 0) [track 1 ''A'', track 2 ''B''])) \<and>
   \<not> index_invariant (player_run [PlaySong (track 2 ''B''), ToggleShuffle (\<lambda>i. 0),
          SongsChanged (\<lambda>i. 0) [track 1 ''A'', track 2 ''B'', track 3 ''C'']]
       (mount (\<lambda>i. 0) [track 1 ''A'', track 2 ''B'']))"
  by (simp add: index_invariant_def player_run_def mount_def songsChanged_def playSong_def
      toggleShuffle_def updateShuffledPlaylist_def getCurrentPlaylist_def element_def
      initial_player_def track_def Let_def numeral_2_eq_2)

end
